theory Spec2Isabelle
  imports Main "HOL-Library.Sublist"
begin

section \<open>Python values as they occur in the log files\<close>

text \<open>
  The storage engine of \<^verbatim>\<open>dabble/backends/fs.py\<close> keeps three append-only text files
  whose lines are JSON documents.  A decoded line, and every argument the storage methods
  pass on to \<^verbatim>\<open>json.dumps\<close>, is a value of the following type: \<^verbatim>\<open>None\<close>, booleans,
  (unbounded) integers, strings, lists and dictionaries with string keys.  A dictionary is
  an association list read through \<open>map_of\<close>; the order of its entries carries no meaning.
  Floating point numbers and tuples are outside the model.
\<close>

datatype json =
    JNull
  | JBool bool
  | JInt int
  | JStr string
  | JList "json list"
  | JObj "(string \<times> json) list"

text \<open>
  The exceptions that the code can raise.  \<open>Exception template arg\<close> stands for the
  statement \<^verbatim>\<open>raise Exception(template % arg)\<close>; the other constructors are the
  built-in exceptions raised by the operations on values.
\<close>

datatype error =
    Exception string json
  | TypeError
  | KeyError
  | IndexError
  | AttributeError

text \<open>
  A generator: the records it yields, in order, ended by exhaustion (\<open>Stop\<close>) or by an
  exception that escapes from its body (\<open>Raise\<close>).
\<close>

datatype 'a gen =
    Stop
  | Raise error
  | Yield 'a "'a gen"

text \<open>Python's \<^verbatim>\<open>==\<close> on these values: \<^verbatim>\<open>True == 1\<close> and \<^verbatim>\<open>False == 0\<close> hold,
  lists are compared element by element, dictionaries key by key.\<close>

function py_eq :: "json \<Rightarrow> json \<Rightarrow> bool" where
  "py_eq JNull y = (y = JNull)"
| "py_eq (JBool a) y = (case y of JBool b \<Rightarrow> a = b | JInt n \<Rightarrow> n = of_bool a | _ \<Rightarrow> False)"
| "py_eq (JInt m) y = (case y of JBool b \<Rightarrow> m = of_bool b | JInt n \<Rightarrow> m = n | _ \<Rightarrow> False)"
| "py_eq (JStr s) y = (y = JStr s)"
| "py_eq (JList xs) y = (case y of JList ys \<Rightarrow> list_all2 py_eq xs ys | _ \<Rightarrow> False)"
| "py_eq (JObj kvs) y =
     (case y of
        JObj kws \<Rightarrow>
          set (map fst kvs) = set (map fst kws) \<and>
          (\<forall>k \<in> set (map fst kvs). py_eq (the (map_of kvs k)) (the (map_of kws k)))
      | _ \<Rightarrow> False)"
  by pat_completeness auto
termination
proof (relation "measure (\<lambda>(x, y). size x)", goal_cases)
  case 1
  show ?case by simp
next
  case (2 xs y ys x z)
  have "size x \<le> size_list size xs"
    using 2(2) by (rule size_list_estimation') simp
  then show ?case by simp
next
  case (3 kvs y kws k)
  then obtain v where kv: "(k, v) \<in> set kvs" and m: "map_of kvs k = Some v"
    by (cases "map_of kvs k") (auto simp: map_of_eq_None_iff dest: map_of_SomeD)
  have "size_prod (\<lambda>_. 0) size (k, v) \<le> size_list (size_prod (\<lambda>_. 0) size) kvs"
    using kv by (rule size_list_estimation') simp
  then show ?case using m by simp
qed

text \<open>Truth value of a value in a condition (\<^verbatim>\<open>if existing and ...\<close>, \<^verbatim>\<open>x or {}\<close>).\<close>

fun py_truthy :: "json \<Rightarrow> bool" where
  "py_truthy JNull = False"
| "py_truthy (JBool b) = b"
| "py_truthy (JInt n) = (n \<noteq> 0)"
| "py_truthy (JStr s) = (s \<noteq> [])"
| "py_truthy (JList xs) = (xs \<noteq> [])"
| "py_truthy (JObj kvs) = (kvs \<noteq> [])"

text \<open>\<^verbatim>\<open>key in data\<close> for a string \<open>key\<close>: key membership in a dictionary, substring test
  in a string, element test in a list, \<^verbatim>\<open>TypeError\<close> for everything else.\<close>

fun py_contains :: "json \<Rightarrow> string \<Rightarrow> error + bool" where
  "py_contains (JObj kvs) key = Inr (key \<in> set (map fst kvs))"
| "py_contains (JStr s) key = Inr (sublist key s)"
| "py_contains (JList xs) key = Inr (list_ex (\<lambda>x. py_eq x (JStr key)) xs)"
| "py_contains JNull key = Inl TypeError"
| "py_contains (JBool b) key = Inl TypeError"
| "py_contains (JInt n) key = Inl TypeError"

text \<open>\<^verbatim>\<open>data[key]\<close> for a string \<open>key\<close>: only a dictionary can be subscripted by a
  string, and a missing key raises \<^verbatim>\<open>KeyError\<close>.\<close>

fun py_getitem :: "json \<Rightarrow> string \<Rightarrow> error + json" where
  "py_getitem (JObj kvs) key = (case map_of kvs key of None \<Rightarrow> Inl KeyError | Some v \<Rightarrow> Inr v)"
| "py_getitem JNull key = Inl TypeError"
| "py_getitem (JBool b) key = Inl TypeError"
| "py_getitem (JInt n) key = Inl TypeError"
| "py_getitem (JStr s) key = Inl TypeError"
| "py_getitem (JList xs) key = Inl TypeError"

text \<open>\<^verbatim>\<open>data.get(key)\<close>: the method exists on dictionaries only, and a missing key gives
  \<^verbatim>\<open>None\<close>.\<close>

fun py_get :: "json \<Rightarrow> string \<Rightarrow> error + json" where
  "py_get (JObj kvs) key = Inr (case map_of kvs key of None \<Rightarrow> JNull | Some v \<Rightarrow> v)"
| "py_get JNull key = Inl AttributeError"
| "py_get (JBool b) key = Inl AttributeError"
| "py_get (JInt n) key = Inl AttributeError"
| "py_get (JStr s) key = Inl AttributeError"
| "py_get (JList xs) key = Inl AttributeError"

text \<open>\<^verbatim>\<open>lst[n]\<close> on a list of length \<open>len\<close>: the position that is read.  A negative
  index counts from the end, a boolean is the integer 0 or 1, any other value is a
  \<^verbatim>\<open>TypeError\<close>, and a position outside the list is an \<^verbatim>\<open>IndexError\<close>.\<close>

fun py_index :: "nat \<Rightarrow> json \<Rightarrow> error + nat" where
  "py_index len (JInt n) =
     (if 0 \<le> n \<and> n < int len then Inr (nat n)
      else if - int len \<le> n \<and> n < 0 then Inr (nat (int len + n))
      else Inl IndexError)"
| "py_index len (JBool b) = (if of_bool b < len then Inr (of_bool b) else Inl IndexError)"
| "py_index len JNull = Inl TypeError"
| "py_index len (JStr s) = Inl TypeError"
| "py_index len (JList xs) = Inl TypeError"
| "py_index len (JObj kvs) = Inl TypeError"

text \<open>The number of rounds of \<^verbatim>\<open>for alt in x\<close>: the elements of a list, the characters
  of a string, the keys of a dictionary; other values cannot be iterated.\<close>

fun py_iter_count :: "json \<Rightarrow> error + nat" where
  "py_iter_count (JList xs) = Inr (length xs)"
| "py_iter_count (JStr s) = Inr (length s)"
| "py_iter_count (JObj kvs) = Inr (length (remdups (map fst kvs)))"
| "py_iter_count JNull = Inl TypeError"
| "py_iter_count (JBool b) = Inl TypeError"
| "py_iter_count (JInt n) = Inl TypeError"

text \<open>An element of a Python \<^verbatim>\<open>set\<close>: a hashable value, up to \<^verbatim>\<open>==\<close> (so \<^verbatim>\<open>True\<close> and
  \<^verbatim>\<open>1\<close> are the same element).  Lists and dictionaries are unhashable: adding one to a set,
  or testing its membership, raises \<^verbatim>\<open>TypeError\<close>.\<close>

datatype hkey = HNone | HInt int | HStr string

fun py_hash :: "json \<Rightarrow> error + hkey" where
  "py_hash JNull = Inr HNone"
| "py_hash (JBool b) = Inr (HInt (of_bool b))"
| "py_hash (JInt n) = Inr (HInt n)"
| "py_hash (JStr s) = Inr (HStr s)"
| "py_hash (JList xs) = Inl TypeError"
| "py_hash (JObj kvs) = Inl TypeError"

section \<open>Files\<close>

text \<open>
  The file system maps a file name to the text of the file, if the file exists.  The
  functions \<^verbatim>\<open>json.loads\<close> and \<^verbatim>\<open>json.dumps\<close> belong to Python's library, not to the
  program: they are parameters of the model.  \<open>loads\<close> gives \<open>None\<close> where \<^verbatim>\<open>json.loads\<close>
  raises.
\<close>

type_synonym fs = "string \<Rightarrow> string option"

record json_module =
  loads :: "string \<Rightarrow> json option"
  dumps :: "json \<Rightarrow> string"

text \<open>\<^verbatim>\<open>for line in fp\<close>: the text is cut after every newline character; the last line
  may lack one.\<close>

fun file_lines :: "string \<Rightarrow> string list" where
  "file_lines [] = []"
| "file_lines (ch # rest) =
     (if ch = CHR 0x0A then [ch] # file_lines rest
      else (case file_lines rest of [] \<Rightarrow> [[ch]] | l # ls \<Rightarrow> (ch # l) # ls))"

text \<open>The body of the loop over \<^verbatim>\<open>pattern.iteritems()\<close> in \<^verbatim>\<open>find_lines\<close>:
  \<^verbatim>\<open>matches = matches and key in data and data[key] == value\<close>.  The operator \<^verbatim>\<open>and\<close>
  evaluates its right operand only if the left one is true.  The pattern is listed in the
  order in which the dictionary of keyword arguments is iterated.\<close>

fun pattern_matches :: "json \<Rightarrow> (string \<times> json) list \<Rightarrow> bool \<Rightarrow> error + bool" where
  "pattern_matches data [] matches = Inr matches"
| "pattern_matches data ((key, val) # pattern) matches =
     (if \<not> matches then pattern_matches data pattern False
      else case py_contains data key of
             Inl e \<Rightarrow> Inl e
           | Inr False \<Rightarrow> pattern_matches data pattern False
           | Inr True \<Rightarrow>
               (case py_getitem data key of
                  Inl e \<Rightarrow> Inl e
                | Inr v \<Rightarrow> pattern_matches data pattern (py_eq v val)))"

text \<open>The loop \<^verbatim>\<open>for line in fp\<close> of \<^verbatim>\<open>find_lines\<close>: a line that \<^verbatim>\<open>json.loads\<close> rejects
  is skipped (\<^verbatim>\<open>except: continue\<close>); the matching itself is outside the \<^verbatim>\<open>try\<close>.\<close>

fun find_lines_loop :: "json_module \<Rightarrow> (string \<times> json) list \<Rightarrow> string list \<Rightarrow> json gen" where
  "find_lines_loop J pattern [] = Stop"
| "find_lines_loop J pattern (line # rest) =
     (case loads J line of
        None \<Rightarrow> find_lines_loop J pattern rest
      | Some data \<Rightarrow>
          (case pattern_matches data pattern True of
             Inl e \<Rightarrow> Raise e
           | Inr True \<Rightarrow> Yield data (find_lines_loop J pattern rest)
           | Inr False \<Rightarrow> find_lines_loop J pattern rest))"

definition find_lines :: "json_module \<Rightarrow> fs \<Rightarrow> string \<Rightarrow> (string \<times> json) list \<Rightarrow> json gen" where
  "find_lines J fs filename pattern =
     (case fs filename of
        None \<Rightarrow> Stop
      | Some content \<Rightarrow> find_lines_loop J pattern (file_lines content))"

text \<open>\<^verbatim>\<open>find_line\<close> takes the first record of the generator and abandons the rest, so
  an exception that a later line would raise never happens; the result \<open>None\<close> is
  Python's \<^verbatim>\<open>None\<close>.\<close>

definition find_line :: "json_module \<Rightarrow> fs \<Rightarrow> string \<Rightarrow> (string \<times> json) list \<Rightarrow> error + json option" where
  "find_line J fs filename pattern =
     (case find_lines J fs filename pattern of
        Stop \<Rightarrow> Inr None
      | Raise e \<Rightarrow> Inl e
      | Yield line rest \<Rightarrow> Inr (Some line))"

text \<open>\<^verbatim>\<open>append_line\<close>: the keyword arguments are serialised, a newline is added, and the
  text is written at the end of the file, which mode \<^verbatim>\<open>'a'\<close> creates when it is missing.
  The lock is free whenever a single thread of control calls the function, so it does not
  appear in the model.\<close>

definition append_line :: "json_module \<Rightarrow> string \<Rightarrow> (string \<times> json) list \<Rightarrow> fs \<Rightarrow> fs" where
  "append_line J filename line fs =
     (let data = dumps J (JObj line) @ [CHR 0x0A]
      in fs(filename \<mapsto> (case fs filename of None \<Rightarrow> [] | Some content \<Rightarrow> content) @ data))"

section \<open>The storage class\<close>

text \<open>\<^verbatim>\<open>os.path.join\<close> on two components.\<close>

definition join :: "string \<Rightarrow> string \<Rightarrow> string" where
  "join a b =
     (if b \<noteq> [] \<and> hd b = CHR ''/'' then b
      else if a = [] \<or> last a = CHR ''/'' then a @ b
      else a @ ''/'' @ b)"

record storage =
  directory :: string
  tests_path :: string
  results_path :: string
  alts_path :: string

text \<open>The constructor, for a directory that exists and is given by its absolute path.\<close>

definition FSResultStorage :: "string \<Rightarrow> storage" where
  "FSResultStorage dir =
     \<lparr> directory = dir,
       tests_path = join dir ''tests.dabble'',
       results_path = join dir ''results.dabble'',
       alts_path = join dir ''alts.dabble'' \<rparr>"

text \<open>Every method takes the file system and returns its result, or the exception it
  raises, together with the file system it leaves behind.\<close>

definition save_test :: "json_module \<Rightarrow> storage \<Rightarrow> json \<Rightarrow> json \<Rightarrow> fs \<Rightarrow> (error + unit) \<times> fs" where
  \<open>save_test J self test_name alternatives fs =
     (case find_line J fs (tests_path self) [(''t'', test_name)] of
        Inl e \<Rightarrow> (Inl e, fs)
      | Inr existing \<Rightarrow>
          (case (case existing of
                   None \<Rightarrow> Inr False
                 | Some ex \<Rightarrow>
                     if py_truthy ex
                     then (case py_getitem ex ''a'' of
                             Inl e \<Rightarrow> Inl e
                           | Inr v \<Rightarrow> Inr (\<not> py_eq v alternatives))
                     else Inr False) of
             Inl e \<Rightarrow> (Inl e, fs)
           | Inr True \<Rightarrow>
               (Inl (Exception ''test "%s" already exists with different alternatives'' test_name), fs)
           | Inr False \<Rightarrow>
               (Inr (), append_line J (tests_path self) [(''t'', test_name), (''a'', alternatives)] fs)))\<close>

text \<open>The method \<^verbatim>\<open>record\<close>.\<close>

definition record_result :: "json_module \<Rightarrow> storage \<Rightarrow> json \<Rightarrow> json \<Rightarrow> json \<Rightarrow> json \<Rightarrow> json \<Rightarrow> fs \<Rightarrow> (error + unit) \<times> fs" where
  "record_result J self identity test_name alternative action completed fs =
     (Inr (), append_line J (results_path self)
                [(''i'', identity), (''t'', test_name), (''n'', alternative),
                 (''a'', action), (''c'', completed)] fs)"

definition is_completed :: "json_module \<Rightarrow> storage \<Rightarrow> json \<Rightarrow> json \<Rightarrow> json \<Rightarrow> fs \<Rightarrow> (error + bool) \<times> fs" where
  "is_completed J self identity test_name alternative fs =
     (case find_line J fs (results_path self)
             [(''i'', identity), (''t'', test_name), (''n'', alternative), (''c'', JBool True)] of
        Inl e \<Rightarrow> (Inl e, fs)
      | Inr completed \<Rightarrow> (Inr (completed \<noteq> None), fs))"

definition set_alternative :: "json_module \<Rightarrow> storage \<Rightarrow> json \<Rightarrow> json \<Rightarrow> json \<Rightarrow> fs \<Rightarrow> (error + unit) \<times> fs" where
  "set_alternative J self identity test_name alternative fs =
     (case find_line J fs (alts_path self) [(''i'', identity), (''t'', test_name)] of
        Inl e \<Rightarrow> (Inl e, fs)
      | Inr existing \<Rightarrow>
          (case (case existing of
                   None \<Rightarrow> Inr False
                 | Some ex \<Rightarrow>
                     if py_truthy ex
                     then (case py_getitem ex ''n'' of
                             Inl e \<Rightarrow> Inl e
                           | Inr v \<Rightarrow> Inr (\<not> py_eq v alternative))
                     else Inr False) of
             Inl e \<Rightarrow> (Inl e, fs)
           | Inr True \<Rightarrow>
               (Inl (Exception ''different alternative already set for identity %s'' identity), fs)
           | Inr False \<Rightarrow>
               (Inr (), append_line J (alts_path self)
                          [(''i'', identity), (''t'', test_name), (''n'', alternative)] fs)))"

text \<open>The result \<open>JNull\<close> is Python's \<^verbatim>\<open>None\<close>.\<close>

definition get_alternative :: "json_module \<Rightarrow> storage \<Rightarrow> json \<Rightarrow> json \<Rightarrow> fs \<Rightarrow> (error + json) \<times> fs" where
  "get_alternative J self identity test_name fs =
     (case find_line J fs (alts_path self) [(''i'', identity), (''t'', test_name)] of
        Inl e \<Rightarrow> (Inl e, fs)
      | Inr found \<Rightarrow>
          (let existing = (case found of
                             None \<Rightarrow> JObj []
                           | Some ex \<Rightarrow> if py_truthy ex then ex else JObj [])
           in (py_get existing ''n'', fs)))"

text \<open>The body of the loop of \<^verbatim>\<open>ab_report\<close> over the result events.  The list \<open>res\<close> is
  \<^verbatim>\<open>out['results']\<close>: for each alternative the sets \<^verbatim>\<open>attempted\<close> and \<^verbatim>\<open>completed\<close>.\<close>

definition ab_report_step :: "json \<Rightarrow> json \<Rightarrow> json \<Rightarrow> (hkey set \<times> hkey set) list \<Rightarrow> error + (hkey set \<times> hkey set) list" where
  "ab_report_step a b data res =
     (case py_getitem data ''n'' of Inl e \<Rightarrow> Inl e | Inr n \<Rightarrow>
      case py_index (length res) n of Inl e \<Rightarrow> Inl e | Inr k \<Rightarrow>
      case py_getitem data ''a'' of Inl e \<Rightarrow> Inl e | Inr act \<Rightarrow>
        if py_eq act a then
          (case py_getitem data ''i'' of Inl e \<Rightarrow> Inl e | Inr i \<Rightarrow>
           case py_hash i of Inl e \<Rightarrow> Inl e | Inr h \<Rightarrow>
             Inr (res[k := (insert h (fst (res ! k)), snd (res ! k))]))
        else if py_eq act b then
          (case py_getitem data ''i'' of Inl e \<Rightarrow> Inl e | Inr i \<Rightarrow>
           case py_hash i of Inl e \<Rightarrow> Inl e | Inr h \<Rightarrow>
             if h \<in> fst (res ! k)
             then Inr (res[k := (fst (res ! k), insert h (snd (res ! k)))])
             else Inr res)
        else Inr res)"

fun ab_report_loop :: "json \<Rightarrow> json \<Rightarrow> json gen \<Rightarrow> (hkey set \<times> hkey set) list \<Rightarrow> error + (hkey set \<times> hkey set) list" where
  "ab_report_loop a b Stop res = Inr res"
| "ab_report_loop a b (Raise e) res = Inl e"
| "ab_report_loop a b (Yield data rest) res =
     (case ab_report_step a b data res of
        Inl e \<Rightarrow> Inl e
      | Inr res' \<Rightarrow> ab_report_loop a b rest res')"

record result_count =
  attempted :: nat
  completed :: nat

record report =
  test_name :: json
  alternatives :: json
  results :: "result_count list"

definition ab_report :: "json_module \<Rightarrow> storage \<Rightarrow> json \<Rightarrow> json \<Rightarrow> json \<Rightarrow> fs \<Rightarrow> (error + report) \<times> fs" where
  \<open>ab_report J self name a b fs =
     (case find_line J fs (tests_path self) [(''t'', name)] of
        Inl e \<Rightarrow> (Inl e, fs)
      | Inr None \<Rightarrow> (Inl (Exception ''unknown test "%s"'' name), fs)
      | Inr (Some test) \<Rightarrow>
          (case py_getitem test ''a'' of Inl e \<Rightarrow> (Inl e, fs) | Inr alts \<Rightarrow>
           case py_iter_count alts of Inl e \<Rightarrow> (Inl e, fs) | Inr n \<Rightarrow>
           case ab_report_loop a b (find_lines J fs (results_path self) [(''t'', name)])
                  (replicate n ({}, {})) of
             Inl e \<Rightarrow> (Inl e, fs)
           | Inr res \<Rightarrow>
               (Inr \<lparr> test_name = name, alternatives = alts,
                      results = map (\<lambda>(att, com). \<lparr> attempted = card att, completed = card com \<rparr>) res \<rparr>,
                fs)))\<close>

section \<open>A JSON module for concrete logs\<close>

text \<open>
  The theorems below hold for every \<open>json_module\<close>.  To run the storage on concrete
  files, this section gives one: the compact serialisation that
  \<^verbatim>\<open>json.dumps(line, separators=(',', ':'))\<close> writes, and a reader for JSON text, both
  for documents without floating point numbers whose strings are made of the characters
  with codes below 128 (the reader) or 256 (the writer).  The writer lists the keys of a
  dictionary in the order of the association list; Python lists them in the order of its
  hash table, which no reader of the log depends on.
\<close>

definition is_ws :: "char \<Rightarrow> bool" where
  "is_ws c = (c = CHR '' '' \<or> c = CHR 0x09 \<or> c = CHR 0x0A \<or> c = CHR 0x0D)"

definition skip_ws :: "string \<Rightarrow> string" where
  "skip_ws s = dropWhile is_ws s"

definition is_digit :: "char \<Rightarrow> bool" where
  "is_digit c = (48 \<le> (of_char c :: nat) \<and> (of_char c :: nat) \<le> 57)"

definition digit_val :: "char \<Rightarrow> nat" where
  "digit_val c = of_char c - 48"

definition hex_val :: "char \<Rightarrow> nat option" where
  "hex_val c =
     (let n = (of_char c :: nat) in
      if 48 \<le> n \<and> n \<le> 57 then Some (n - 48)
      else if 97 \<le> n \<and> n \<le> 102 then Some (n - 87)
      else if 65 \<le> n \<and> n \<le> 70 then Some (n - 55)
      else None)"

definition hex4 :: "char \<Rightarrow> char \<Rightarrow> char \<Rightarrow> char \<Rightarrow> nat option" where
  "hex4 a b c d =
     (case (hex_val a, hex_val b, hex_val c, hex_val d) of
        (Some x, Some y, Some z, Some w) \<Rightarrow> Some (((x * 16 + y) * 16 + z) * 16 + w)
      | _ \<Rightarrow> None)"

text \<open>The character after a backslash in a string, other than \<^verbatim>\<open>u\<close>.\<close>

definition unescape :: "char \<Rightarrow> char option" where
  "unescape e =
     (if e = CHR 0x22 then Some (CHR 0x22)
      else if e = CHR 0x5C then Some (CHR 0x5C)
      else if e = CHR ''/'' then Some (CHR ''/'')
      else if e = CHR ''b'' then Some (CHR 0x08)
      else if e = CHR ''f'' then Some (CHR 0x0C)
      else if e = CHR ''n'' then Some (CHR 0x0A)
      else if e = CHR ''r'' then Some (CHR 0x0D)
      else if e = CHR ''t'' then Some (CHR 0x09)
      else None)"

text \<open>The rest of a string after its opening quote: the decoded text and what follows
  the closing quote.\<close>

fun parse_string :: "string \<Rightarrow> string \<Rightarrow> (string \<times> string) option" where
  "parse_string acc [] = None"
| "parse_string acc [c] = (if c = CHR 0x22 then Some (acc, []) else None)"
| "parse_string acc (c # e # cs) =
     (if c = CHR 0x22 then Some (acc, e # cs)
      else if c = CHR 0x5C then
        (if e = CHR ''u'' then
           (case cs of
              h1 # h2 # h3 # h4 # cs' \<Rightarrow>
                (case hex4 h1 h2 h3 h4 of
                   Some n \<Rightarrow> if n < 256 then parse_string (acc @ [char_of n]) cs' else None
                 | None \<Rightarrow> None)
            | _ \<Rightarrow> None)
         else (case unescape e of
                 Some ch \<Rightarrow> parse_string (acc @ [ch]) cs
               | None \<Rightarrow> None))
      else if (of_char c :: nat) < 32 \<or> 128 \<le> (of_char c :: nat) then None
      else parse_string (acc @ [c]) (e # cs))"

text \<open>An integer: an optional sign, then \<^verbatim>\<open>0\<close> or a digit sequence that does not start
  with \<^verbatim>\<open>0\<close>.\<close>

definition parse_nat :: "string \<Rightarrow> (nat \<times> string) option" where
  "parse_nat s =
     (case s of
        [] \<Rightarrow> None
      | c # cs \<Rightarrow>
          if c = CHR ''0'' then Some (0, cs)
          else if is_digit c
          then Some (foldl (\<lambda>n d. 10 * n + digit_val d) 0 (takeWhile is_digit s), dropWhile is_digit s)
          else None)"

definition parse_int :: "string \<Rightarrow> (json \<times> string) option" where
  "parse_int s =
     (case s of
        [] \<Rightarrow> None
      | c # cs \<Rightarrow>
          if c = CHR ''-''
          then (case parse_nat cs of Some (n, rest) \<Rightarrow> Some (JInt (- int n), rest) | None \<Rightarrow> None)
          else (case parse_nat s of Some (n, rest) \<Rightarrow> Some (JInt (int n), rest) | None \<Rightarrow> None))"

text \<open>The recursive descent over values, the elements of an array after \<^verbatim>\<open>[\<close> and the
  members of an object after \<^verbatim>\<open>{\<close>.  The first argument bounds the depth of the calls;
  \<open>json_loads\<close> starts with more than any text needs.  A key that occurs twice keeps its
  last value.\<close>

fun parse_value :: "nat \<Rightarrow> string \<Rightarrow> (json \<times> string) option"
  and parse_elements :: "nat \<Rightarrow> json list \<Rightarrow> string \<Rightarrow> (json \<times> string) option"
  and parse_members :: "nat \<Rightarrow> (string \<times> json) list \<Rightarrow> string \<Rightarrow> (json \<times> string) option"
where
  "parse_value 0 s = None"
| "parse_value (Suc n) s =
     (case s of
        [] \<Rightarrow> None
      | c # cs \<Rightarrow>
          if c = CHR 0x22 then
            (case parse_string [] cs of Some (str, rest) \<Rightarrow> Some (JStr str, rest) | None \<Rightarrow> None)
          else if c = CHR ''{'' then
            (case skip_ws cs of
               [] \<Rightarrow> None
             | d # ds \<Rightarrow> if d = CHR ''}'' then Some (JObj [], ds) else parse_members n [] (d # ds))
          else if c = CHR ''['' then
            (case skip_ws cs of
               [] \<Rightarrow> None
             | d # ds \<Rightarrow> if d = CHR '']'' then Some (JList [], ds) else parse_elements n [] (d # ds))
          else if take 4 s = ''null'' then Some (JNull, drop 4 s)
          else if take 4 s = ''true'' then Some (JBool True, drop 4 s)
          else if take 5 s = ''false'' then Some (JBool False, drop 5 s)
          else parse_int s)"
| "parse_elements 0 acc s = None"
| "parse_elements (Suc n) acc s =
     (case parse_value n s of
        None \<Rightarrow> None
      | Some (v, rest) \<Rightarrow>
          (case skip_ws rest of
             [] \<Rightarrow> None
           | d # ds \<Rightarrow>
               if d = CHR '']'' then Some (JList (acc @ [v]), ds)
               else if d = CHR '','' then parse_elements n (acc @ [v]) (skip_ws ds)
               else None))"
| "parse_members 0 acc s = None"
| "parse_members (Suc n) acc s =
     (case s of
        [] \<Rightarrow> None
      | q # cs \<Rightarrow>
          if q \<noteq> CHR 0x22 then None
          else
            (case parse_string [] cs of
               None \<Rightarrow> None
             | Some (key, rest) \<Rightarrow>
                 (case skip_ws rest of
                    [] \<Rightarrow> None
                  | colon # after \<Rightarrow>
                      if colon \<noteq> CHR '':'' then None
                      else
                        (case parse_value n (skip_ws after) of
                           None \<Rightarrow> None
                         | Some (v, rest') \<Rightarrow>
                             (case skip_ws rest' of
                                [] \<Rightarrow> None
                              | d # ds \<Rightarrow>
                                  if d = CHR ''}'' then Some (JObj ((key, v) # acc), ds)
                                  else if d = CHR '','' then parse_members n ((key, v) # acc) (skip_ws ds)
                                  else None)))))"

definition json_loads :: "string \<Rightarrow> json option" where
  "json_loads s =
     (case parse_value (2 * length s + 2) (skip_ws s) of
        None \<Rightarrow> None
      | Some (v, rest) \<Rightarrow> if skip_ws rest = [] then Some v else None)"

text \<open>The writer.\<close>

definition hex_digit :: "nat \<Rightarrow> char" where
  "hex_digit n = (if n < 10 then char_of (48 + n) else char_of (87 + n))"

definition escape_char :: "char \<Rightarrow> string" where
  "escape_char c =
     (if c = CHR 0x22 then [CHR 0x5C, CHR 0x22]
      else if c = CHR 0x5C then [CHR 0x5C, CHR 0x5C]
      else if c = CHR 0x0A then [CHR 0x5C, CHR ''n'']
      else if c = CHR 0x0D then [CHR 0x5C, CHR ''r'']
      else if c = CHR 0x09 then [CHR 0x5C, CHR ''t'']
      else if c = CHR 0x08 then [CHR 0x5C, CHR ''b'']
      else if c = CHR 0x0C then [CHR 0x5C, CHR ''f'']
      else if 32 \<le> (of_char c :: nat) \<and> (of_char c :: nat) \<le> 126 then [c]
      else [CHR 0x5C, CHR ''u'', CHR ''0'', CHR ''0'',
            hex_digit ((of_char c :: nat) div 16), hex_digit ((of_char c :: nat) mod 16)])"

definition quote :: "string \<Rightarrow> string" where
  "quote s = [CHR 0x22] @ concat (map escape_char s) @ [CHR 0x22]"

fun digits :: "nat \<Rightarrow> string" where
  "digits n = (if n < 10 then [char_of (48 + n)] else digits (n div 10) @ [char_of (48 + n mod 10)])"

declare digits.simps [simp del]

definition show_int :: "int \<Rightarrow> string" where
  "show_int i = (if i < 0 then CHR ''-'' # digits (nat (- i)) else digits (nat i))"

fun commas :: "string list \<Rightarrow> string" where
  "commas [] = []"
| "commas [x] = x"
| "commas (x # y # zs) = x @ '','' @ commas (y # zs)"

text \<open>The entries of a dictionary: for a key that the association list holds twice, the
  first entry, which is the one that \<open>map_of\<close> reads.\<close>

fun entries :: "(string \<times> json) list \<Rightarrow> (string \<times> json) list" where
  "entries [] = []"
| "entries ((k, v) # kvs) = (k, v) # entries (filter (\<lambda>kv. fst kv \<noteq> k) kvs)"

function json_dumps :: "json \<Rightarrow> string" where
  "json_dumps JNull = ''null''"
| "json_dumps (JBool b) = (if b then ''true'' else ''false'')"
| "json_dumps (JInt n) = show_int n"
| "json_dumps (JStr s) = quote s"
| "json_dumps (JList xs) = ''['' @ commas (map json_dumps xs) @ '']''"
| "json_dumps (JObj kvs) =
     ''{'' @ commas (map (\<lambda>kv. quote (fst kv) @ '':'' @ json_dumps (snd kv)) (entries kvs)) @ ''}''"
  by pat_completeness auto
termination
proof (relation "measure size", goal_cases)
  case 1
  show ?case by simp
next
  case (2 xs x)
  have "size x \<le> size_list size xs"
    using 2 by (rule size_list_estimation') simp
  then show ?case by simp
next
  case (3 kvs kv)
  have sub: "set (entries al) \<subseteq> set al" for al
    by (induction al rule: entries.induct) auto
  have "size_prod (\<lambda>_. 0) size kv \<le> size_list (size_prod (\<lambda>_. 0) size) kvs"
    using 3 sub by (intro size_list_estimation'[where x = kv]) auto
  then show ?case by (cases kv) simp
qed

definition python_json :: json_module where
  "python_json = \<lparr> loads = json_loads, dumps = json_dumps \<rparr>"

section \<open>What the specification says about the logs\<close>

text \<open>
  The definitions of this section follow the words of the specification, not the code;
  the theorems compare the two.  A log is read as the sequence of its records: the values
  of the lines that parse, in file order; a file that does not exist has none.
\<close>

definition log_records :: "json_module \<Rightarrow> fs \<Rightarrow> string \<Rightarrow> json list" where
  "log_records J fs filename =
     (case fs filename of
        None \<Rightarrow> []
      | Some content \<Rightarrow> List.map_filter (loads J) (file_lines content))"

definition is_obj :: "json \<Rightarrow> bool" where
  "is_obj d = (case d of JObj kvs \<Rightarrow> True | _ \<Rightarrow> False)"

text \<open>The field of a record, if the record is a dictionary that has it.\<close>

definition field :: "json \<Rightarrow> string \<Rightarrow> json option" where
  "field d key = (case d of JObj kvs \<Rightarrow> map_of kvs key | _ \<Rightarrow> None)"

text \<open>Structural subset match: every key of the pattern is a field of the record, with
  an equal value.\<close>

definition subset_match :: "json \<Rightarrow> (string \<times> json) list \<Rightarrow> bool" where
  "subset_match d pattern =
     list_all (\<lambda>(key, val). case field d key of None \<Rightarrow> False | Some v \<Rightarrow> py_eq v val) pattern"

text \<open>A log all of whose records are dictionaries (section 3 of the specification: one
  JSON object per line).\<close>

definition object_log :: "json_module \<Rightarrow> fs \<Rightarrow> string \<Rightarrow> bool" where
  "object_log J fs filename = list_all is_obj (log_records J fs filename)"

text \<open>The generator that yields the elements of a list and ends.\<close>

fun gen_of_list :: "'a list \<Rightarrow> 'a gen" where
  "gen_of_list [] = Stop"
| "gen_of_list (x # xs) = Yield x (gen_of_list xs)"

text \<open>The records a generator yields before it ends, and the exception it ends with.\<close>

fun yielded :: "'a gen \<Rightarrow> 'a list" where
  "yielded Stop = []"
| "yielded (Raise e) = []"
| "yielded (Yield x g) = x # yielded g"

fun raised :: "'a gen \<Rightarrow> error option" where
  "raised Stop = None"
| "raised (Raise e) = Some e"
| "raised (Yield x g) = raised g"

text \<open>The funnel of \<^verbatim>\<open>ab_report\<close>, event by event.  For a test with \<open>n\<close> alternatives an
  event belongs to the alternative that its field \<^verbatim>\<open>n\<close> selects in a list of length \<open>n\<close>;
  its identity is its field \<^verbatim>\<open>i\<close> as an element of a set.\<close>

definition event_alt :: "nat \<Rightarrow> json \<Rightarrow> nat option" where
  "event_alt n e =
     (case field e ''n'' of
        None \<Rightarrow> None
      | Some v \<Rightarrow> (case py_index n v of Inl err \<Rightarrow> None | Inr k \<Rightarrow> Some k))"

definition event_id :: "json \<Rightarrow> hkey option" where
  "event_id e =
     (case field e ''i'' of
        None \<Rightarrow> None
      | Some v \<Rightarrow> (case py_hash v of Inl err \<Rightarrow> None | Inr h \<Rightarrow> Some h))"

definition event_action :: "json \<Rightarrow> json \<Rightarrow> bool" where
  "event_action e a = (case field e ''a'' of None \<Rightarrow> False | Some v \<Rightarrow> py_eq v a)"

text \<open>The identities attempted in alternative \<open>k\<close>: those of the events of that
  alternative whose action is \<open>a\<close>.\<close>

definition attempted_ids :: "json \<Rightarrow> nat \<Rightarrow> nat \<Rightarrow> json list \<Rightarrow> hkey set" where
  "attempted_ids a n k events =
     set (List.map_filter event_id
            (filter (\<lambda>e. event_alt n e = Some k \<and> event_action e a) events))"

text \<open>The identities completed in alternative \<open>k\<close>: those of the events of that
  alternative whose action is \<open>b\<close> (and not \<open>a\<close>) and whose identity was attempted in that
  alternative by a strictly earlier event.\<close>

definition completed_ids :: "json \<Rightarrow> json \<Rightarrow> nat \<Rightarrow> nat \<Rightarrow> json list \<Rightarrow> hkey set" where
  "completed_ids a b n k events =
     set (List.map_filter (\<lambda>j. event_id (events ! j))
            (filter (\<lambda>j. event_alt n (events ! j) = Some k \<and>
                         \<not> event_action (events ! j) a \<and> event_action (events ! j) b \<and>
                         event_id (events ! j) \<in> Some ` attempted_ids a n k (take j events))
               [0..<length events]))"

text \<open>The result events of a test, in file order.\<close>

definition events_of :: "json_module \<Rightarrow> fs \<Rightarrow> storage \<Rightarrow> json \<Rightarrow> json list" where
  "events_of J fs self name =
     filter (\<lambda>d. subset_match d [(''t'', name)]) (log_records J fs (results_path self))"

text \<open>A file made of complete lines: it is absent or empty, or its last character is a
  newline.  Every file that \<^verbatim>\<open>append_line\<close> has written is of this kind.\<close>

definition complete_lines :: "fs \<Rightarrow> string \<Rightarrow> bool" where
  "complete_lines fs filename =
     (case fs filename of
        None \<Rightarrow> True
      | Some content \<Rightarrow> content = [] \<or> last content = CHR 0x0A)"

text \<open>The file system \<open>fs'\<close> is \<open>fs\<close> after one line, the serialised record and a newline,
  has been added at the end of the file \<open>filename\<close>; every other file is as it was.\<close>

definition appended_one :: "json_module \<Rightarrow> string \<Rightarrow> (string \<times> json) list \<Rightarrow> fs \<Rightarrow> fs \<Rightarrow> bool" where
  "appended_one J filename line fs fs' \<longleftrightarrow>
     fs' filename =
       Some ((case fs filename of None \<Rightarrow> [] | Some content \<Rightarrow> content) @
             dumps J (JObj line) @ [CHR 0x0A]) \<and>
     (\<forall>f. f \<noteq> filename \<longrightarrow> fs' f = fs f)"

text \<open>What \<open>python_json\<close> reads back from what it has written: a value whose
  dictionaries hold each key once, the entries in the order in which the parser stores
  them.  \<open>json_ascii\<close> are the values whose strings are made of characters below 128;
  \<open>no_digit_ahead\<close> says that a text does not go on with a digit.\<close>

fun json_ascii :: "json \<Rightarrow> bool" where
  "json_ascii JNull = True"
| "json_ascii (JBool b) = True"
| "json_ascii (JInt n) = True"
| "json_ascii (JStr s) = (\<forall>c \<in> set s. of_char c < (128::nat))"
| "json_ascii (JList xs) = (\<forall>x \<in> set xs. json_ascii x)"
| "json_ascii (JObj kvs) =
     (\<forall>kv \<in> set kvs. (\<forall>c \<in> set (fst kv). of_char c < (128::nat)) \<and> json_ascii (snd kv))"

function reread :: "json \<Rightarrow> json" where
  "reread JNull = JNull"
| "reread (JBool b) = JBool b"
| "reread (JInt n) = JInt n"
| "reread (JStr s) = JStr s"
| "reread (JList xs) = JList (map reread xs)"
| "reread (JObj kvs) = JObj (rev (map (\<lambda>kv. (fst kv, reread (snd kv))) (entries kvs)))"
  by pat_completeness auto
termination
proof (relation "measure size", goal_cases)
  case 1
  show ?case by simp
next
  case (2 xs x)
  have "size x \<le> size_list size xs"
    using 2 by (rule size_list_estimation') simp
  then show ?case by simp
next
  case (3 kvs kv)
  have sub: "set (entries l) \<subseteq> set l" for l :: "(string \<times> json) list"
    by (induction l rule: entries.induct) auto
  have "size_prod (\<lambda>_. 0) size kv \<le> size_list (size_prod (\<lambda>_. 0) size) kvs"
    using 3 sub by (intro size_list_estimation'[where x = kv]) auto
  then show ?case by (cases kv) simp
qed

definition no_digit_ahead :: "string \<Rightarrow> bool" where
  "no_digit_ahead rest = (case rest of [] \<Rightarrow> True | c # cs \<Rightarrow> \<not> is_digit c)"

text \<open>An event that the loop of \<^verbatim>\<open>ab_report\<close> can process for a test with \<open>n\<close> alternatives:
  its field \<^verbatim>\<open>n\<close> selects one of them, it has a field \<^verbatim>\<open>a\<close>, and if its action is one
  of the two actions of the report, its field \<^verbatim>\<open>i\<close> is a hashable value.\<close>

definition countable_event :: "json \<Rightarrow> json \<Rightarrow> nat \<Rightarrow> json \<Rightarrow> bool" where
  "countable_event a b n e \<longleftrightarrow>
     event_alt n e \<noteq> None \<and> field e ''a'' \<noteq> None \<and>
     (event_action e a \<or> event_action e b \<longrightarrow> event_id e \<noteq> None)"

text \<open>A record that the module \<open>J\<close> writes on one line and reads back as a dictionary with
  equal fields; the file systems that the storage methods reach from a directory
  without logs, when every record written is of this kind; and logs that are sound: made
  of complete lines, and of dictionaries only.\<close>

definition round_trips :: "json_module \<Rightarrow> (string \<times> json) list \<Rightarrow> bool" where
  "round_trips J line \<longleftrightarrow>
     CHR 0x0A \<notin> set (dumps J (JObj line)) \<and>
     (\<exists>r. loads J (dumps J (JObj line) @ [CHR 0x0A]) = Some r \<and> is_obj r \<and> py_eq r (JObj line))"

inductive reachable :: "json_module \<Rightarrow> storage \<Rightarrow> fs \<Rightarrow> bool" for J :: json_module and self :: storage where
  fresh: "fs (tests_path self) = None \<Longrightarrow> fs (results_path self) = None \<Longrightarrow>
          fs (alts_path self) = None \<Longrightarrow> reachable J self fs"
| saved: "reachable J self fs \<Longrightarrow> round_trips J [(''t'', name), (''a'', alts)] \<Longrightarrow>
          save_test J self name alts fs = (r, fs') \<Longrightarrow> reachable J self fs'"
| recorded: "reachable J self fs \<Longrightarrow>
          round_trips J [(''i'', ident), (''t'', name), (''n'', alt), (''a'', act), (''c'', flag)] \<Longrightarrow>
          record_result J self ident name alt act flag fs = (r, fs') \<Longrightarrow> reachable J self fs'"
| assigned: "reachable J self fs \<Longrightarrow>
          round_trips J [(''i'', ident), (''t'', name), (''n'', alt)] \<Longrightarrow>
          set_alternative J self ident name alt fs = (r, fs') \<Longrightarrow> reachable J self fs'"

definition sound_logs :: "json_module \<Rightarrow> storage \<Rightarrow> fs \<Rightarrow> bool" where
  "sound_logs J self fs \<longleftrightarrow>
     (\<forall>p \<in> {tests_path self, results_path self, alts_path self}.
        complete_lines fs p \<and> object_log J fs p)"

section \<open>Concrete logs\<close>

text \<open>A storage directory and the logs used as examples below.  The texts are what the
  module \<open>python_json\<close> writes for the calls named with each of them.\<close>

definition example_storage :: storage where
  "example_storage = FSResultStorage ''/var/dabble''"

text \<open>After \<^verbatim>\<open>save_test("x", ["A", "B"])\<close> and the four events of the funnel scenario:
  \<^verbatim>\<open>record("u1", "x", 0, "shown")\<close>, \<^verbatim>\<open>record("u1", "x", 0, "converted")\<close>,
  \<^verbatim>\<open>record("u2", "x", 0, "converted")\<close>, \<^verbatim>\<open>record("u3", "x", 1, "shown")\<close>.\<close>

definition funnel_fs :: fs where
  \<open>funnel_fs = Map.empty
     (''/var/dabble/tests.dabble'' \<mapsto> ''{"t":"x","a":["A","B"]}\<newline>'',
      ''/var/dabble/results.dabble'' \<mapsto>
        ''{"i":"u1","t":"x","n":0,"a":"shown","c":false}\<newline>{"i":"u1","t":"x","n":0,"a":"converted","c":false}\<newline>{"i":"u2","t":"x","n":0,"a":"converted","c":false}\<newline>{"i":"u3","t":"x","n":1,"a":"shown","c":false}\<newline>'')\<close>

text \<open>After \<^verbatim>\<open>save_test("x", ["a", "b"])\<close>.\<close>

definition registered_fs :: fs where
  \<open>registered_fs = Map.empty
     (''/var/dabble/tests.dabble'' \<mapsto> ''{"t":"x","a":["a","b"]}\<newline>'')\<close>

text \<open>After \<^verbatim>\<open>set_alternative("u1", "x", 0)\<close>.\<close>

definition assigned_fs :: fs where
  \<open>assigned_fs = Map.empty
     (''/var/dabble/alts.dabble'' \<mapsto> ''{"i":"u1","t":"x","n":0}\<newline>'')\<close>

text \<open>After \<^verbatim>\<open>record("u1", "x", 0, "shown", False)\<close> and
  \<^verbatim>\<open>record("u1", "x", 0, "shown", True)\<close>.\<close>

definition shown_fs :: fs where
  \<open>shown_fs = Map.empty
     (''/var/dabble/results.dabble'' \<mapsto>
        ''{"i":"u1","t":"x","n":0,"a":"shown","c":false}\<newline>{"i":"u1","t":"x","n":0,"a":"shown","c":true}\<newline>'')\<close>

text \<open>A results log whose first line is the JSON document \<^verbatim>\<open>5\<close>, followed by a completed
  event.\<close>

definition number_line_fs :: fs where
  \<open>number_line_fs = Map.empty
     (''/var/dabble/results.dabble'' \<mapsto>
        ''5\<newline>{"i":"u1","t":"x","n":0,"a":"shown","c":true}\<newline>'')\<close>

text \<open>A log with a line cut short between two valid lines, and a log whose first line is
  the JSON document \<^verbatim>\<open>5\<close>.\<close>

definition torn_fs :: fs where
  \<open>torn_fs = Map.empty
     (''/var/dabble/tests.dabble'' \<mapsto>
        ''{"t":"x","a":["a"]}\<newline>{"t":"x","a":[\<newline>{"t":"y","a":["b"]}\<newline>{"t":"x","a":["c"]}\<newline>'')\<close>

definition number_first_fs :: fs where
  \<open>number_first_fs = Map.empty
     (''/var/dabble/tests.dabble'' \<mapsto> ''5\<newline>{"t":"x"}\<newline>'')\<close>

text \<open>A log whose only line lacks its newline.\<close>

definition unterminated_fs :: fs where
  \<open>unterminated_fs = Map.empty (''/var/dabble/tests.dabble'' \<mapsto> ''{"t":"x"}'')\<close>

text \<open>Test \<^verbatim>\<open>x\<close> with two alternatives and one event: with alternative \<^verbatim>\<open>-1\<close>, and with
  alternative \<^verbatim>\<open>2\<close>.\<close>

definition negative_fs :: fs where
  \<open>negative_fs = Map.empty
     (''/var/dabble/tests.dabble'' \<mapsto> ''{"t":"x","a":["A","B"]}\<newline>'',
      ''/var/dabble/results.dabble'' \<mapsto> ''{"i":"u1","t":"x","n":-1,"a":"shown","c":false}\<newline>'')\<close>

definition beyond_fs :: fs where
  \<open>beyond_fs = Map.empty
     (''/var/dabble/tests.dabble'' \<mapsto> ''{"t":"x","a":["A","B"]}\<newline>'',
      ''/var/dabble/results.dabble'' \<mapsto> ''{"i":"u1","t":"x","n":2,"a":"shown","c":false}\<newline>'')\<close>

text \<open>A tests log with four definitions: one of test \<^verbatim>\<open>y\<close>, two of test \<^verbatim>\<open>x\<close> with
  different alternatives, and one of test \<^verbatim>\<open>w\<close> without alternatives.\<close>

definition definitions_fs :: fs where
  \<open>definitions_fs = Map.empty
     (''/var/dabble/tests.dabble'' \<mapsto>
        ''{"t":"y","a":["a","c"]}\<newline>{"t":"x","a":["a","b"]}\<newline>{"t":"x","a":["a","c"]}\<newline>{"t":"w"}\<newline>'')\<close>

text \<open>An assignments log with five records: one of \<^verbatim>\<open>u2\<close> in test \<^verbatim>\<open>x\<close>, one of \<^verbatim>\<open>u1\<close> in
  test \<^verbatim>\<open>y\<close>, two of \<^verbatim>\<open>u1\<close> in test \<^verbatim>\<open>x\<close> with different alternatives, and one of \<^verbatim>\<open>u3\<close>
  in test \<^verbatim>\<open>x\<close> without alternative.\<close>

definition assignments_fs :: fs where
  \<open>assignments_fs = Map.empty
     (''/var/dabble/alts.dabble'' \<mapsto>
        ''{"i":"u2","t":"x","n":1}\<newline>{"i":"u1","t":"y","n":1}\<newline>{"i":"u1","t":"x","n":0}\<newline>{"i":"u1","t":"x","n":1}\<newline>{"i":"u3","t":"x"}\<newline>'')\<close>

text \<open>A tests log and an assignments log whose only line is the JSON document \<^verbatim>\<open>5\<close>.\<close>

definition number_logs_fs :: fs where
  \<open>number_logs_fs = Map.empty
     (''/var/dabble/tests.dabble'' \<mapsto> ''5\<newline>'',
      ''/var/dabble/alts.dabble'' \<mapsto> ''5\<newline>'')\<close>

section \<open>Equality of values\<close>

lemma map_of_the_in:
  assumes "k \<in> set (map fst kvs)"
  obtains v where "map_of kvs k = Some v" "(k, v) \<in> set kvs"
proof -
  from assms have "map_of kvs k \<noteq> None" by (simp add: map_of_eq_None_iff)
  then obtain v where "map_of kvs k = Some v" by auto
  then show ?thesis using that by (auto dest: map_of_SomeD)
qed

lemma py_eq_refl: "py_eq x x"
proof (induction x)
  case (JList xs)
  then show ?case by (simp add: list_all2_conv_all_nth)
next
  case (JObj kvs)
  have "py_eq (the (map_of kvs k)) (the (map_of kvs k))" if "k \<in> set (map fst kvs)" for k
  proof -
    from that obtain v where "map_of kvs k = Some v" "(k, v) \<in> set kvs" by (rule map_of_the_in)
    with JObj.IH[of "(k, v)" v] show ?thesis by simp
  qed
  then show ?case by simp
qed simp_all

lemma py_eq_sym: "py_eq x y \<Longrightarrow> py_eq y x"
proof (induction x arbitrary: y)
  case JNull then show ?case by simp
next
  case (JBool a) then show ?case by (cases y) auto
next
  case (JInt n) then show ?case by (cases y) auto
next
  case (JStr s) then show ?case by simp
next
  case (JList xs)
  then obtain ys where y: "y = JList ys" and r: "list_all2 py_eq xs ys" by (cases y) auto
  from r JList.IH have "list_all2 py_eq ys xs"
    by (auto simp: list_all2_conv_all_nth)
  with y show ?case by simp
next
  case (JObj kvs)
  from JObj.prems obtain kws where y: "y = JObj kws" by (cases y) auto
  from JObj.prems(1)[unfolded y py_eq.simps json.case]
  have keys: "set (map fst kvs) = set (map fst kws)"
    and vals: "\<And>k. k \<in> set (map fst kvs) \<Longrightarrow> py_eq (the (map_of kvs k)) (the (map_of kws k))"
    by blast+
  have "py_eq (the (map_of kws k)) (the (map_of kvs k))" if "k \<in> set (map fst kws)" for k
  proof -
    from that keys have k: "k \<in> set (map fst kvs)" by simp
    then obtain v where "map_of kvs k = Some v" "(k, v) \<in> set kvs" by (rule map_of_the_in)
    with JObj.IH[of "(k, v)" v "the (map_of kws k)"] vals[OF k] show ?thesis by simp
  qed
  with y keys show ?case by simp
qed

lemma py_eq_trans: "py_eq x y \<Longrightarrow> py_eq y z \<Longrightarrow> py_eq x z"
proof (induction x arbitrary: y z)
  case JNull then show ?case by simp
next
  case (JBool a) then show ?case by (cases y; cases z) auto
next
  case (JInt n) then show ?case by (cases y; cases z) auto
next
  case (JStr s) then show ?case by simp
next
  case (JList xs)
  from JList.prems obtain ys where y: "y = JList ys" and r: "list_all2 py_eq xs ys" by (cases y) auto
  from JList.prems y obtain zs where z: "z = JList zs" and r': "list_all2 py_eq ys zs" by (cases z) auto
  from r r' JList.IH have "list_all2 py_eq xs zs"
    by (auto simp: list_all2_conv_all_nth)
  with z show ?case by simp
next
  case (JObj kvs)
  from JObj.prems obtain kws where y: "y = JObj kws" by (cases y) auto
  from JObj.prems(1)[unfolded y py_eq.simps json.case]
  have keys: "set (map fst kvs) = set (map fst kws)"
    and vals: "\<And>k. k \<in> set (map fst kvs) \<Longrightarrow> py_eq (the (map_of kvs k)) (the (map_of kws k))"
    by blast+
  from JObj.prems y obtain kzs where z: "z = JObj kzs" by (cases z) auto
  from JObj.prems(2)[unfolded y z py_eq.simps json.case]
  have keys': "set (map fst kws) = set (map fst kzs)"
    and vals': "\<And>k. k \<in> set (map fst kws) \<Longrightarrow> py_eq (the (map_of kws k)) (the (map_of kzs k))"
    by blast+
  have "py_eq (the (map_of kvs k)) (the (map_of kzs k))" if k: "k \<in> set (map fst kvs)" for k
  proof -
    from k obtain v where "map_of kvs k = Some v" "(k, v) \<in> set kvs" by (rule map_of_the_in)
    with JObj.IH[of "(k, v)" v "the (map_of kws k)" "the (map_of kzs k)"] vals[OF k] vals'[of k] k keys
    show ?thesis by simp
  qed
  with z keys keys' show ?case by simp
qed

lemma py_eq_cong_right: "py_eq a b \<Longrightarrow> py_eq v a = py_eq v b"
  by (meson py_eq_sym py_eq_trans)

lemma py_hash_eq:
  "py_hash x = Inr h \<Longrightarrow> py_hash y = Inr h' \<Longrightarrow> (h = h') = py_eq x y"
  by (cases x; cases y) (auto split: if_splits)

section \<open>Matching a record against a pattern\<close>

lemma pattern_matches_obj:
  "is_obj d \<Longrightarrow> pattern_matches d p m = Inr (m \<and> subset_match d p)"
proof (induction p arbitrary: m)
  case Nil
  then show ?case by (simp add: subset_match_def)
next
  case (Cons kv p)
  obtain key val where kv: "kv = (key, val)" by (cases kv)
  from Cons.prems obtain kvs where d: "d = JObj kvs" by (cases d) (auto simp: is_obj_def)
  show ?case
  proof (cases "map_of kvs key")
    case None
    then have "key \<notin> set (map fst kvs)" by (simp add: map_of_eq_None_iff)
    with None Cons kv d show ?thesis by (simp add: subset_match_def field_def)
  next
    case (Some v)
    then have "key \<in> set (map fst kvs)" by (metis map_of_eq_None_iff option.distinct(1) set_map)
    with Some Cons kv d show ?thesis by (auto simp add: subset_match_def field_def)
  qed
qed

lemma pattern_matches_sound:
  "pattern_matches d p m = Inr b \<Longrightarrow> b = (m \<and> subset_match d p)"
proof (induction p arbitrary: m)
  case Nil
  then show ?case by (simp add: subset_match_def)
next
  case (Cons kv p)
  obtain key val where kv: "kv = (key, val)" by (cases kv)
  show ?case
  proof (cases m)
    case False
    with Cons kv show ?thesis by auto
  next
    case True
    show ?thesis
    proof (cases d)
      case (JObj kvs)
      then have "is_obj d" by (simp add: is_obj_def)
      from pattern_matches_obj[OF this, of "kv # p" m] Cons.prems show ?thesis by simp
    next
      case JNull with Cons kv True show ?thesis by simp
    next
      case (JBool x) with Cons kv True show ?thesis by simp
    next
      case (JInt x) with Cons kv True show ?thesis by simp
    next
      case (JStr x) with Cons kv True show ?thesis 
        by (auto simp: subset_match_def field_def split: if_splits bool.splits)
    next
      case (JList x) with Cons kv True show ?thesis
        by (auto simp: subset_match_def field_def split: if_splits bool.splits)
    qed
  qed
qed

lemma find_lines_loop_objects:
  assumes "pattern = [] \<or> list_all is_obj (List.map_filter (loads J) lines)"
  shows "find_lines_loop J pattern lines =
         gen_of_list (filter (\<lambda>d. subset_match d pattern) (List.map_filter (loads J) lines))"
  using assms
proof (induction lines)
  case Nil
  then show ?case by (simp add: map_filter_simps)
next
  case (Cons line lines)
  show ?case
  proof (cases "loads J line")
    case None
    with Cons show ?thesis by (simp add: map_filter_simps)
  next
    case (Some d)
    from Cons.prems Some have "pattern = [] \<or> is_obj d"
      by (auto simp: map_filter_simps)
    then have pm: "pattern_matches d pattern True = Inr (subset_match d pattern)"
      by (auto simp: pattern_matches_obj subset_match_def)
    from Cons.prems Some have "pattern = [] \<or> list_all is_obj (List.map_filter (loads J) lines)"
      by (auto simp: map_filter_simps)
    with Cons.IH Some pm show ?thesis
      by (simp add: map_filter_simps)
  qed
qed

lemma find_lines_loop_no_raise:
  assumes "raised (find_lines_loop J pattern lines) = None"
  shows "find_lines_loop J pattern lines =
         gen_of_list (filter (\<lambda>d. subset_match d pattern) (List.map_filter (loads J) lines))"
  using assms
proof (induction lines)
  case Nil
  then show ?case by (simp add: map_filter_simps)
next
  case (Cons line lines)
  show ?case
  proof (cases "loads J line")
    case None
    with Cons show ?thesis by (simp add: map_filter_simps)
  next
    case (Some d)
    show ?thesis
    proof (cases "pattern_matches d pattern True")
      case (Inl e)
      with Cons.prems Some show ?thesis by simp
    next
      case (Inr b)
      from pattern_matches_sound[OF Inr] have b: "b = subset_match d pattern" by simp
      with Cons Some Inr show ?thesis
        by (cases b) (simp_all add: map_filter_simps)
    qed
  qed
qed

lemma find_lines_loop_yielded_match:
  "x \<in> set (yielded (find_lines_loop J pattern lines)) \<Longrightarrow>
   subset_match x pattern \<and> x \<in> set (List.map_filter (loads J) lines)"
proof (induction lines)
  case Nil
  then show ?case by simp
next
  case (Cons line lines)
  show ?case
  proof (cases "loads J line")
    case None
    with Cons show ?thesis by (auto simp add: map_filter_simps)
  next
    case (Some d)
    show ?thesis
    proof (cases "pattern_matches d pattern True")
      case (Inl e)
      with Cons.prems Some show ?thesis by simp
    next
      case (Inr b)
      from pattern_matches_sound[OF Inr] have b: "b = subset_match d pattern" by simp
      with Cons Some Inr show ?thesis
        by (cases b) (auto simp add: map_filter_simps)
    qed
  qed
qed

section \<open>The loop of the report\<close>

lemma py_getitem_field: "py_getitem d key = Inr v \<longleftrightarrow> field d key = Some v"
  by (cases d) (auto simp: field_def split: option.splits)

lemma py_index_less: "py_index len v = Inr k \<Longrightarrow> k < len"
  by (cases v) (auto split: if_splits)

lemma set_map_filter_iff: "y \<in> set (List.map_filter f xs) \<longleftrightarrow> (\<exists>x \<in> set xs. f x = Some y)"
  by (induction xs) (auto split: option.splits)

lemma map_filter_append: "List.map_filter f (xs @ ys) = List.map_filter f xs @ List.map_filter f ys"
  by (induction xs) (auto split: option.splits)

lemma attempted_ids_iff:
  "h \<in> attempted_ids a n k evs \<longleftrightarrow>
   (\<exists>e \<in> set evs. event_alt n e = Some k \<and> event_action e a \<and> event_id e = Some h)"
  by (auto simp: attempted_ids_def set_map_filter_iff)

lemma completed_ids_iff:
  "h \<in> completed_ids a b n k evs \<longleftrightarrow>
   (\<exists>j < length evs. event_alt n (evs ! j) = Some k \<and> \<not> event_action (evs ! j) a \<and>
      event_action (evs ! j) b \<and> event_id (evs ! j) = Some h \<and>
      h \<in> attempted_ids a n k (take j evs))"
  by (auto simp: completed_ids_def set_map_filter_iff)

lemma attempted_ids_snoc:
  "attempted_ids a n k (evs @ [e]) =
   attempted_ids a n k evs \<union>
   (if event_alt n e = Some k \<and> event_action e a
    then (case event_id e of None \<Rightarrow> {} | Some h \<Rightarrow> {h}) else {})"
  by (auto simp: attempted_ids_iff split: option.splits)

lemma completed_ids_snoc:
  "completed_ids a b n k (evs @ [e]) =
   completed_ids a b n k evs \<union>
   (if event_alt n e = Some k \<and> \<not> event_action e a \<and> event_action e b
    then (case event_id e of None \<Rightarrow> {} | Some h \<Rightarrow> if h \<in> attempted_ids a n k evs then {h} else {})
    else {})"
proof (rule set_eqI)
  fix h
  define P where "P xs j \<longleftrightarrow> event_alt n (xs ! j) = Some k \<and> \<not> event_action (xs ! j) a \<and>
      event_action (xs ! j) b \<and> event_id (xs ! j) = Some h \<and>
      h \<in> attempted_ids a n k (take j xs)" for xs j
  have iff: "h \<in> completed_ids a b n k xs \<longleftrightarrow> (\<exists>j < length xs. P xs j)" for xs
    by (simp add: completed_ids_iff P_def)
  have old: "P (evs @ [e]) j = P evs j" if "j < length evs" for j
    using that by (simp add: P_def nth_append)
  have new: "P (evs @ [e]) (length evs) \<longleftrightarrow>
      event_alt n e = Some k \<and> \<not> event_action e a \<and> event_action e b \<and> event_id e = Some h \<and>
      h \<in> attempted_ids a n k evs"
    by (simp add: P_def)
  have "h \<in> completed_ids a b n k (evs @ [e]) \<longleftrightarrow>
        (\<exists>j < length evs. P (evs @ [e]) j) \<or> P (evs @ [e]) (length evs)"
    by (auto simp: iff less_Suc_eq)
  also have "\<dots> \<longleftrightarrow> h \<in> completed_ids a b n k evs \<or> P (evs @ [e]) (length evs)"
    using old by (auto simp: iff)
  finally show "h \<in> completed_ids a b n k (evs @ [e]) \<longleftrightarrow>
        h \<in> completed_ids a b n k evs \<union>
   (if event_alt n e = Some k \<and> \<not> event_action e a \<and> event_action e b
    then (case event_id e of None \<Rightarrow> {} | Some h \<Rightarrow> if h \<in> attempted_ids a n k evs then {h} else {})
    else {})"
    by (auto simp: new split: option.splits if_splits)
qed

lemma ab_report_loop_snoc:
  "ab_report_loop a b (gen_of_list (evs @ [e])) res =
   (case ab_report_loop a b (gen_of_list evs) res of
      Inl err \<Rightarrow> Inl err
    | Inr r \<Rightarrow> ab_report_step a b e r)"
  by (induction evs arbitrary: res) (auto split: sum.splits)

lemma ab_report_loop_raised:
  "ab_report_loop a b g res = Inr r \<Longrightarrow> raised g = None"
  by (induction g arbitrary: res) (auto split: sum.splits)

lemma gen_of_list_yielded: "raised g = None \<Longrightarrow> gen_of_list (yielded g) = g"
  by (induction g) auto

text \<open>The state of the loop after a list of events.\<close>

lemma ab_report_loop_state:
  assumes "ab_report_loop a b (gen_of_list evs) (replicate n ({}, {})) = Inr r"
  shows "length r = n \<and>
         (\<forall>k < n. r ! k = (attempted_ids a n k evs, completed_ids a b n k evs)) \<and>
         (\<forall>e \<in> set evs. event_alt n e \<noteq> None)"
  using assms
proof (induction evs arbitrary: r rule: rev_induct)
  case Nil
  then show ?case by (auto simp: attempted_ids_def completed_ids_def map_filter_simps)
next
  case (snoc e evs)
  from snoc.prems obtain r0 where r0: "ab_report_loop a b (gen_of_list evs) (replicate n ({}, {})) = Inr r0"
    and step: "ab_report_step a b e r0 = Inr r"
    by (auto simp: ab_report_loop_snoc split: sum.splits)
  from snoc.IH[OF r0] have len: "length r0 = n"
    and st: "\<And>k. k < n \<Longrightarrow> r0 ! k = (attempted_ids a n k evs, completed_ids a b n k evs)"
    and alts: "\<forall>e \<in> set evs. event_alt n e \<noteq> None"
    by auto
  from step obtain v k0 act where v: "field e ''n'' = Some v" and k0: "py_index n v = Inr k0"
    and act: "field e ''a'' = Some act"
    by (auto simp: ab_report_step_def len py_getitem_field[symmetric] split: sum.splits)
  from k0 have k0n: "k0 < n" by (rule py_index_less)
  from v k0 have ealt: "event_alt n e = Some k0" by (simp add: event_alt_def)
  from act have eact: "event_action e x = py_eq act x" for x by (simp add: event_action_def)
  have "length r = n \<and> (\<forall>k < n. r ! k = (attempted_ids a n k (evs @ [e]), completed_ids a b n k (evs @ [e])))"
  proof (cases "py_eq act a")
    case True
    with step v k0 act obtain i h where i: "field e ''i'' = Some i" and h: "py_hash i = Inr h"
      and r: "r = r0[k0 := (insert h (fst (r0 ! k0)), snd (r0 ! k0))]"
      by (auto simp: ab_report_step_def len py_getitem_field[symmetric] split: sum.splits)
    from i h have eid: "event_id e = Some h" by (simp add: event_id_def)
    show ?thesis
      using r len st k0n True
      by (auto simp: attempted_ids_snoc completed_ids_snoc ealt eact eid nth_list_update)
  next
    case False
    note na = False
    show ?thesis
    proof (cases "py_eq act b")
      case True
      with na step v k0 act obtain i h where i: "field e ''i'' = Some i" and h: "py_hash i = Inr h"
        and r: "r = (if h \<in> fst (r0 ! k0) then r0[k0 := (fst (r0 ! k0), insert h (snd (r0 ! k0)))] else r0)"
        by (auto simp: ab_report_step_def len py_getitem_field[symmetric] split: sum.splits if_splits)
      from i h have eid: "event_id e = Some h" by (simp add: event_id_def)
      show ?thesis
        using r len st k0n True na
        by (auto simp: attempted_ids_snoc completed_ids_snoc ealt eact eid nth_list_update)
    next
      case False
      with na step v k0 act have "r = r0"
        by (auto simp: ab_report_step_def len py_getitem_field[symmetric] split: sum.splits)
      then show ?thesis
        using len st k0n False na
        by (auto simp: attempted_ids_snoc completed_ids_snoc ealt eact)
    qed
  qed
  with alts ealt show ?case by auto
qed

section \<open>Lines and logs\<close>

lemma file_lines_single:
  "CHR 0x0A \<notin> set s \<Longrightarrow> file_lines (s @ [CHR 0x0A]) = [s @ [CHR 0x0A]]"
  by (induction s) auto

lemma file_lines_append:
  "xs = [] \<or> last xs = CHR 0x0A \<Longrightarrow> file_lines (xs @ ys) = file_lines xs @ file_lines ys"
proof (induction xs)
  case Nil
  then show ?case by simp
next
  case (Cons x xs)
  show ?case
  proof (cases "xs = []")
    case True
    with Cons.prems show ?thesis by simp
  next
    case False
    with Cons.prems have "last xs = CHR 0x0A" by simp
    with Cons.IH have IH: "file_lines (xs @ ys) = file_lines xs @ file_lines ys" by simp
    from False \<open>last xs = CHR 0x0A\<close> have "file_lines xs \<noteq> []"
      by (cases xs) (auto split: list.splits)
    then show ?thesis using IH by (auto split: list.splits)
  qed
qed

lemma find_lines_objects:
  assumes "pattern = [] \<or> object_log J fs filename"
  shows "find_lines J fs filename pattern =
         gen_of_list (filter (\<lambda>d. subset_match d pattern) (log_records J fs filename))"
  using assms
  by (cases "fs filename")
     (auto simp: find_lines_def log_records_def object_log_def intro!: find_lines_loop_objects)

lemma find_line_gen_of_list:
  "(case gen_of_list xs of Stop \<Rightarrow> Inr None | Raise e \<Rightarrow> Inl e | Yield line rest \<Rightarrow> Inr (Some line)) =
   Inr (case xs of [] \<Rightarrow> None | x # _ \<Rightarrow> Some x)"
  by (cases xs) auto

lemma find_line_objects:
  assumes "pattern = [] \<or> object_log J fs filename"
  shows "find_line J fs filename pattern =
         Inr (case filter (\<lambda>d. subset_match d pattern) (log_records J fs filename) of
                [] \<Rightarrow> None | d # ds \<Rightarrow> Some d)"
  unfolding find_line_def find_lines_objects[OF assms] by (rule find_line_gen_of_list)

lemma subset_match_empty: "subset_match d []"
  by (simp add: subset_match_def)

lemma log_records_append_line:
  assumes "complete_lines fs filename"
    and "CHR 0x0A \<notin> set (dumps J (JObj line))"
    and "loads J (dumps J (JObj line) @ [CHR 0x0A]) = Some r"
  shows "log_records J (append_line J filename line fs) filename = log_records J fs filename @ [r]"
proof -
  let ?data = "dumps J (JObj line) @ [CHR 0x0A]"
  have one: "file_lines ?data = [?data]" using assms(2) by (rule file_lines_single)
  show ?thesis
  proof (cases "fs filename")
    case None
    then show ?thesis using one assms(3)
      by (simp add: log_records_def append_line_def Let_def)
  next
    case (Some content)
    with assms(1) have "content = [] \<or> last content = CHR 0x0A" by (simp add: complete_lines_def)
    then have "file_lines (content @ ?data) = file_lines content @ [?data]"
      using one by (simp add: file_lines_append)
    then show ?thesis using Some assms(3)
      by (simp add: log_records_def append_line_def Let_def map_filter_append)
  qed
qed

lemma append_line_other:
  "f \<noteq> filename \<Longrightarrow> append_line J filename line fs f = fs f"
  by (simp add: append_line_def Let_def)

lemma log_records_other:
  "f \<noteq> filename \<Longrightarrow> log_records J (append_line J filename line fs) f = log_records J fs f"
  by (simp add: log_records_def append_line_other)

lemma complete_lines_append_line: "complete_lines (append_line J filename line fs) filename"
  by (simp add: complete_lines_def append_line_def Let_def)

section \<open>The lookups of the storage methods\<close>

lemma example_paths:
  "tests_path example_storage = ''/var/dabble/tests.dabble''"
  "results_path example_storage = ''/var/dabble/results.dabble''"
  "alts_path example_storage = ''/var/dabble/alts.dabble''"
  by (simp_all add: example_storage_def FSResultStorage_def join_def)

lemma find_lines_yielded_match:
  "x \<in> set (yielded (find_lines J fs filename pattern)) \<Longrightarrow> subset_match x pattern"
  by (cases "fs filename") (auto simp: find_lines_def dest: find_lines_loop_yielded_match)

lemma find_line_match:
  assumes "find_line J fs filename pattern = Inr (Some ex)"
  shows "subset_match ex pattern"
proof -
  from assms have "ex \<in> set (yielded (find_lines J fs filename pattern))"
    by (cases "find_lines J fs filename pattern") (auto simp: find_line_def)
  then show ?thesis by (rule find_lines_yielded_match)
qed

lemma subset_match_truthy:
  assumes "subset_match ex ((key, val) # pattern)"
  shows "py_truthy ex" and "is_obj ex"
proof -
  from assms obtain v where "field ex key = Some v"
    by (auto simp: subset_match_def split: option.splits)
  then obtain kvs where "ex = JObj kvs" "map_of kvs key = Some v"
    by (cases ex) (auto simp: field_def)
  then show "py_truthy ex" and "is_obj ex" by (auto simp: is_obj_def)
qed

lemma save_test_cases:
  \<open>save_test J self name alts fs =
     (case find_line J fs (tests_path self) [(''t'', name)] of
        Inl e \<Rightarrow> (Inl e, fs)
      | Inr None \<Rightarrow> (Inr (), append_line J (tests_path self) [(''t'', name), (''a'', alts)] fs)
      | Inr (Some ex) \<Rightarrow>
          (case field ex ''a'' of
             None \<Rightarrow> (Inl (if is_obj ex then KeyError else TypeError), fs)
           | Some v \<Rightarrow>
               if py_eq v alts
               then (Inr (), append_line J (tests_path self) [(''t'', name), (''a'', alts)] fs)
               else (Inl (Exception ''test "%s" already exists with different alternatives'' name), fs)))\<close>
proof (cases "find_line J fs (tests_path self) [(''t'', name)]")
  case (Inl e)
  then show ?thesis by (simp add: save_test_def)
next
  case (Inr found)
  show ?thesis
  proof (cases found)
    case None
    with Inr show ?thesis by (simp add: save_test_def)
  next
    case (Some ex)
    with Inr have "subset_match ex [(''t'', name)]" by (auto dest: find_line_match)
    then have "py_truthy ex" "is_obj ex" by (rule subset_match_truthy)+
    then obtain kvs where "ex = JObj kvs" by (cases ex) (auto simp: is_obj_def)
    with Inr Some \<open>py_truthy ex\<close> show ?thesis
      by (auto simp: save_test_def field_def is_obj_def split: option.splits)
  qed
qed

lemma set_alternative_cases:
  \<open>set_alternative J self ident name alt fs =
     (case find_line J fs (alts_path self) [(''i'', ident), (''t'', name)] of
        Inl e \<Rightarrow> (Inl e, fs)
      | Inr None \<Rightarrow>
          (Inr (), append_line J (alts_path self) [(''i'', ident), (''t'', name), (''n'', alt)] fs)
      | Inr (Some ex) \<Rightarrow>
          (case field ex ''n'' of
             None \<Rightarrow> (Inl (if is_obj ex then KeyError else TypeError), fs)
           | Some v \<Rightarrow>
               if py_eq v alt
               then (Inr (), append_line J (alts_path self) [(''i'', ident), (''t'', name), (''n'', alt)] fs)
               else (Inl (Exception ''different alternative already set for identity %s'' ident), fs)))\<close>
proof (cases "find_line J fs (alts_path self) [(''i'', ident), (''t'', name)]")
  case (Inl e)
  then show ?thesis by (simp add: set_alternative_def)
next
  case (Inr found)
  show ?thesis
  proof (cases found)
    case None
    with Inr show ?thesis by (simp add: set_alternative_def)
  next
    case (Some ex)
    with Inr have "subset_match ex [(''i'', ident), (''t'', name)]" by (auto dest: find_line_match)
    then have "py_truthy ex" "is_obj ex" by (rule subset_match_truthy)+
    then obtain kvs where "ex = JObj kvs" by (cases ex) (auto simp: is_obj_def)
    with Inr Some \<open>py_truthy ex\<close> show ?thesis
      by (auto simp: set_alternative_def field_def is_obj_def split: option.splits)
  qed
qed

lemma get_alternative_cases:
  "get_alternative J self ident name fs =
     (case find_line J fs (alts_path self) [(''i'', ident), (''t'', name)] of
        Inl e \<Rightarrow> (Inl e, fs)
      | Inr None \<Rightarrow> (Inr JNull, fs)
      | Inr (Some ex) \<Rightarrow> (Inr (case field ex ''n'' of None \<Rightarrow> JNull | Some v \<Rightarrow> v), fs))"
proof (cases "find_line J fs (alts_path self) [(''i'', ident), (''t'', name)]")
  case (Inl e)
  then show ?thesis by (simp add: get_alternative_def)
next
  case (Inr found)
  show ?thesis
  proof (cases found)
    case None
    with Inr show ?thesis by (simp add: get_alternative_def)
  next
    case (Some ex)
    with Inr have "subset_match ex [(''i'', ident), (''t'', name)]" by (auto dest: find_line_match)
    then have "py_truthy ex" "is_obj ex" by (rule subset_match_truthy)+
    then obtain kvs where "ex = JObj kvs" by (cases ex) (auto simp: is_obj_def)
    with Inr Some \<open>py_truthy ex\<close> show ?thesis
      by (auto simp: get_alternative_def field_def)
  qed
qed

lemma append_line_eq:
  "append_line J filename line fs =
   fs(filename \<mapsto> (case fs filename of None \<Rightarrow> [] | Some content \<Rightarrow> content) @ dumps J (JObj line) @ [CHR 0x0A])"
  by (simp add: append_line_def Let_def)

section \<open>Facts about the storage methods\<close>

subsection \<open>Concrete lookups\<close>

lemma registered_lookup:
  "find_line python_json registered_fs (tests_path example_storage) [(''t'', JStr ''x'')] =
   Inr (Some (JObj [(''a'', JList [JStr ''a'', JStr ''b'']), (''t'', JStr ''x'')]))"
  by code_simp

lemma dumps_registered:
  \<open>dumps python_json (JObj [(''t'', JStr ''x''), (''a'', JList [JStr ''a'', JStr ''b''])]) =
   ''{"t":"x","a":["a","b"]}''\<close>
  by code_simp

subsection \<open>Matching as the specification states it\<close>

lemma subset_match_iff:
  "subset_match d pattern \<longleftrightarrow>
   (\<forall>(key, val) \<in> set pattern. \<exists>v. field d key = Some v \<and> py_eq v val)"
  by (auto simp: subset_match_def list_all_iff split: option.splits)

subsection \<open>What the report computes\<close>

lemma find_lines_no_raise:
  assumes "raised (find_lines J fs filename pattern) = None"
  shows "find_lines J fs filename pattern =
         gen_of_list (filter (\<lambda>d. subset_match d pattern) (log_records J fs filename))"
  using assms
  by (cases "fs filename")
     (auto simp: find_lines_def log_records_def intro!: find_lines_loop_no_raise)

lemma ab_report_frame: "snd (ab_report J self name a b fs) = fs"
  by (auto simp: ab_report_def split: sum.splits option.splits)

text \<open>What a successful call of \<^verbatim>\<open>ab_report\<close> has computed.\<close>

lemma ab_report_success:
  assumes "ab_report J self name a b fs = (Inr out, fs')"
  obtains test where
    "find_line J fs (tests_path self) [(''t'', name)] = Inr (Some test)"
    "field test ''a'' = Some (alternatives out)"
    "py_iter_count (alternatives out) = Inr (length (results out))"
    "test_name out = name"
    "fs' = fs"
    "\<And>k. k < length (results out) \<Longrightarrow>
       results out ! k =
         \<lparr> attempted = card (attempted_ids a (length (results out)) k (events_of J fs self name)),
           completed = card (completed_ids a b (length (results out)) k (events_of J fs self name)) \<rparr>"
    "\<And>e. e \<in> set (events_of J fs self name) \<Longrightarrow> event_alt (length (results out)) e \<noteq> None"
proof -
  from assms have fs': "fs' = fs"
    using ab_report_frame[of J self name a b fs] by simp
  from assms obtain found where found: "find_line J fs (tests_path self) [(''t'', name)] = Inr found"
    by (cases "find_line J fs (tests_path self) [(''t'', name)]") (simp_all add: ab_report_def)
  with assms obtain test where test': "found = Some test"
    by (cases found) (simp_all add: ab_report_def)
  from found test' have test: "find_line J fs (tests_path self) [(''t'', name)] = Inr (Some test)"
    by simp
  from assms test obtain alts where alts: "py_getitem test ''a'' = Inr alts"
    by (cases "py_getitem test ''a''") (simp_all add: ab_report_def)
  from assms test alts obtain n where n: "py_iter_count alts = Inr n"
    by (cases "py_iter_count alts") (simp_all add: ab_report_def)
  from assms test alts n obtain res where
    loop: "ab_report_loop a b (find_lines J fs (results_path self) [(''t'', name)])
                 (replicate n ({}, {})) = Inr res"
    by (cases "ab_report_loop a b (find_lines J fs (results_path self) [(''t'', name)])
                 (replicate n ({}, {}))") (simp_all add: ab_report_def)
  from assms test alts n loop
  have out: "out = \<lparr> test_name = name, alternatives = alts,
                results = map (\<lambda>(att, com). \<lparr> attempted = card att, completed = card com \<rparr>) res \<rparr>"
    by (simp add: ab_report_def)
  from loop have "raised (find_lines J fs (results_path self) [(''t'', name)]) = None"
    by (rule ab_report_loop_raised)
  then have "find_lines J fs (results_path self) [(''t'', name)] = gen_of_list (events_of J fs self name)"
    unfolding events_of_def by (rule find_lines_no_raise)
  with loop have "ab_report_loop a b (gen_of_list (events_of J fs self name)) (replicate n ({}, {})) = Inr res"
    by simp
  from ab_report_loop_state[OF this]
  have len: "length res = n"
    and st: "\<And>k. k < n \<Longrightarrow> res ! k = (attempted_ids a n k (events_of J fs self name),
                                        completed_ids a b n k (events_of J fs self name))"
    and ev: "\<And>e. e \<in> set (events_of J fs self name) \<Longrightarrow> event_alt n e \<noteq> None"
    by auto
  from out len have lr: "length (results out) = n" by simp
  show ?thesis
  proof (rule that[OF test])
    show "field test ''a'' = Some (alternatives out)"
      using alts out by (simp add: py_getitem_field)
    show "py_iter_count (alternatives out) = Inr (length (results out))"
      using n out lr by simp
    show "test_name out = name" using out by simp
    show "fs' = fs" by (rule fs')
    show "results out ! k =
         \<lparr> attempted = card (attempted_ids a (length (results out)) k (events_of J fs self name)),
           completed = card (completed_ids a b (length (results out)) k (events_of J fs self name)) \<rparr>"
      if "k < length (results out)" for k
      using that st[of k] out len lr by simp
    show "event_alt (length (results out)) e \<noteq> None" if "e \<in> set (events_of J fs self name)" for e
      using ev[OF that] lr by simp
  qed
qed

lemma funnel_report:
  "fst (ab_report python_json example_storage (JStr ''x'') (JStr ''shown'') (JStr ''converted'') funnel_fs) =
   Inr \<lparr> test_name = JStr ''x'', alternatives = JList [JStr ''A'', JStr ''B''],
         results = [\<lparr> attempted = 1, completed = 1 \<rparr>, \<lparr> attempted = 1, completed = 0 \<rparr>] \<rparr>"
  by code_simp

subsection \<open>Equal actions\<close>

lemma completed_ids_same_action:
  assumes "py_eq a b"
  shows "completed_ids a b n k evs = {}"
proof -
  have "event_action e b = event_action e a" for e
    using py_eq_cong_right[OF assms] by (simp add: event_action_def split: option.splits)
  then show ?thesis by (auto simp: completed_ids_iff)
qed

subsection \<open>The index of an alternative\<close>

lemma py_index_int_range:
  "py_index len (JInt i) = Inr k \<Longrightarrow> - int len \<le> i \<and> i < int len"
  by (auto split: if_splits)

lemma event_alt_int:
  "field e ''n'' = Some (JInt i) \<Longrightarrow>
   event_alt n e =
     (if 0 \<le> i \<and> i < int n then Some (nat i)
      else if - int n \<le> i \<and> i < 0 then Some (nat (int n + i))
      else None)"
  by (simp add: event_alt_def)

subsection \<open>What the methods leave unchanged\<close>

lemma join_relative:
  "b \<noteq> [] \<Longrightarrow> hd b \<noteq> CHR ''/'' \<Longrightarrow>
   join a b = a @ (if a = [] \<or> last a = CHR ''/'' then [] else ''/'') @ b"
  by (simp add: join_def)

lemma paths_distinct:
  "tests_path (FSResultStorage dir) \<noteq> results_path (FSResultStorage dir)"
  "tests_path (FSResultStorage dir) \<noteq> alts_path (FSResultStorage dir)"
  "results_path (FSResultStorage dir) \<noteq> alts_path (FSResultStorage dir)"
  by (simp_all add: FSResultStorage_def join_relative)

lemma appended_one_append_line: "appended_one J filename line fs (append_line J filename line fs)"
  by (simp add: appended_one_def append_line_eq)

lemma save_test_frame:
  "case save_test J self name alts fs of
     (Inl e, fs') \<Rightarrow> fs' = fs
   | (Inr u, fs') \<Rightarrow> appended_one J (tests_path self) [(''t'', name), (''a'', alts)] fs fs'"
  by (simp add: save_test_cases appended_one_append_line split: sum.splits option.splits)

lemma set_alternative_frame:
  "case set_alternative J self ident name alt fs of
     (Inl e, fs') \<Rightarrow> fs' = fs
   | (Inr u, fs') \<Rightarrow>
       appended_one J (alts_path self) [(''i'', ident), (''t'', name), (''n'', alt)] fs fs'"
  by (simp add: set_alternative_cases appended_one_append_line split: sum.splits option.splits)

lemma save_test_other: "f \<noteq> tests_path self \<Longrightarrow> snd (save_test J self name alts fs) f = fs f"
  by (simp add: save_test_cases append_line_other split: sum.splits option.splits)

lemma set_alternative_other:
  "f \<noteq> alts_path self \<Longrightarrow> snd (set_alternative J self ident name alt fs) f = fs f"
  by (simp add: set_alternative_cases append_line_other split: sum.splits option.splits)

lemma record_result_other:
  "f \<noteq> results_path self \<Longrightarrow> snd (record_result J self ident name alt act flag fs) f = fs f"
  by (simp add: record_result_def append_line_other)

section \<open>When the report is returned\<close>

lemma ab_report_step_total:
  assumes "countable_event a b (length res) e"
  shows "\<exists>r. ab_report_step a b e res = Inr r \<and> length r = length res"
proof -
  from assms obtain v k act where v: "py_getitem e ''n'' = Inr v" and k: "py_index (length res) v = Inr k"
    and act: "py_getitem e ''a'' = Inr act"
    by (auto simp: countable_event_def event_alt_def py_getitem_field split: option.splits sum.splits)
  from act have ea: "event_action e x = py_eq act x" for x
    by (simp add: event_action_def py_getitem_field)
  show ?thesis
  proof (cases "py_eq act a \<or> py_eq act b")
    case True
    with assms ea obtain i h where "py_getitem e ''i'' = Inr i" "py_hash i = Inr h"
      by (auto simp: countable_event_def event_id_def py_getitem_field split: option.splits sum.splits)
    with v k act show ?thesis by (auto simp: ab_report_step_def)
  next
    case False
    with v k act show ?thesis by (auto simp: ab_report_step_def)
  qed
qed

lemma ab_report_loop_total:
  assumes "\<forall>e \<in> set evs. countable_event a b (length res) e"
  shows "\<exists>r. ab_report_loop a b (gen_of_list evs) res = Inr r"
  using assms
proof (induction evs arbitrary: res)
  case Nil
  then show ?case by simp
next
  case (Cons e evs)
  from Cons.prems have "countable_event a b (length res) e" by simp
  from ab_report_step_total[OF this] obtain r where
    r: "ab_report_step a b e res = Inr r" and len: "length r = length res" by blast
  from Cons.prems len have "\<forall>e \<in> set evs. countable_event a b (length r) e" by simp
  from Cons.IH[OF this] r show ?case by simp
qed

text \<open>\<^verbatim>\<open>ab_report\<close> returns a report whenever the two logs hold dictionaries only, the first
  definition of the test has a field \<^verbatim>\<open>a\<close> that can be iterated, and every event of the test
  can be processed.\<close>

lemma ab_report_returns:
  assumes tests: "object_log J fs (tests_path self)"
    and results: "object_log J fs (results_path self)"
    and test: "filter (\<lambda>d. subset_match d [(''t'', name)]) (log_records J fs (tests_path self)) = test # others"
    and alts: "field test ''a'' = Some alts"
    and n: "py_iter_count alts = Inr n"
    and events: "\<forall>e \<in> set (events_of J fs self name). countable_event a b n e"
  shows "\<exists>out. ab_report J self name a b fs = (Inr out, fs)"
proof -
  from tests test have t: "find_line J fs (tests_path self) [(''t'', name)] = Inr (Some test)"
    by (simp add: find_line_objects)
  from results have g: "find_lines J fs (results_path self) [(''t'', name)] =
      gen_of_list (events_of J fs self name)"
    by (simp add: find_lines_objects events_of_def)
  from events have "\<forall>e \<in> set (events_of J fs self name).
      countable_event a b (length (replicate n ({} :: hkey set, {} :: hkey set))) e"
    by simp
  from ab_report_loop_total[OF this] obtain r where
    "ab_report_loop a b (gen_of_list (events_of J fs self name)) (replicate n ({}, {})) = Inr r"
    by blast
  with t alts n g show ?thesis
    by (simp add: ab_report_def py_getitem_field[symmetric])
qed

section \<open>The JSON module reads back what it writes\<close>

subsection \<open>Numbers\<close>

lemma char_eq_code: "c = d \<longleftrightarrow> (of_char c :: nat) = of_char d"
  by simp

lemma digit_char: "k < 10 \<Longrightarrow> is_digit (char_of (48 + k)) \<and> digit_val (char_of (48 + k)) = k"
  by (simp add: is_digit_def digit_val_def)

lemma digits_all_digits: "\<forall>c \<in> set (digits n). is_digit c"
proof (induction n rule: digits.induct)
  case (1 n)
  show ?case
  proof (cases "n < 10")
    case True
    then show ?thesis by (subst digits.simps) (simp add: digit_char)
  next
    case False
    with 1 have "\<forall>c \<in> set (digits (n div 10)). is_digit c" by simp
    moreover have "is_digit (char_of (48 + n mod 10))" by (simp add: digit_char)
    ultimately show ?thesis using False by (subst digits.simps) simp
  qed
qed

lemma digits_value: "foldl (\<lambda>a d. 10 * a + digit_val d) 0 (digits n) = n"
proof (induction n rule: digits.induct)
  case (1 n)
  show ?case
  proof (cases "n < 10")
    case True
    then show ?thesis by (subst digits.simps) (simp add: digit_char)
  next
    case False
    with 1 have "foldl (\<lambda>a d. 10 * a + digit_val d) 0 (digits (n div 10)) = n div 10" by simp
    then show ?thesis using False by (subst digits.simps) (simp add: digit_char)
  qed
qed

lemma digits_nonempty: "digits n \<noteq> []"
  by (subst digits.simps) simp

lemma digits_hd: "hd (digits n) = CHR ''0'' \<longleftrightarrow> n = 0"
proof (induction n rule: digits.induct)
  case (1 n)
  show ?case
  proof (cases "n < 10")
    case True
    have "char_of (48 + n) = CHR ''0'' \<longleftrightarrow> n = 0"
      using True by (simp add: char_eq_code)
    with True show ?thesis by (subst digits.simps) simp
  next
    case False
    with 1 have "hd (digits (n div 10)) = CHR ''0'' \<longleftrightarrow> n div 10 = 0" by simp
    with False show ?thesis by (subst digits.simps) (simp add: digits_nonempty)
  qed
qed

lemma takeWhile_digits:
  assumes "no_digit_ahead rest"
  shows "takeWhile is_digit (digits n @ rest) = digits n"
    and "dropWhile is_digit (digits n @ rest) = rest"
  using assms digits_all_digits[of n]
  by (auto simp: no_digit_ahead_def takeWhile_append dropWhile_append split: list.splits)

lemma parse_nat_digits:
  assumes "no_digit_ahead rest"
  shows "parse_nat (digits n @ rest) = Some (n, rest)"
proof (cases "n = 0")
  case True
  then have "digits n = ''0''" by (subst digits.simps) (simp add: char_eq_code)
  with True show ?thesis by (simp add: parse_nat_def)
next
  case False
  obtain c cs where d: "digits n = c # cs" using digits_nonempty[of n] by (cases "digits n") auto
  with False digits_hd[of n] have "c \<noteq> CHR ''0''" by simp
  moreover from d digits_all_digits[of n] have "is_digit c" by simp
  ultimately show ?thesis
    using takeWhile_digits[OF assms, of n] digits_value[of n] d
    by (simp add: parse_nat_def)
qed

lemma parse_int_show_int:
  assumes "no_digit_ahead rest"
  shows "parse_int (show_int i @ rest) = Some (JInt i, rest)"
proof (cases "i < 0")
  case True
  then show ?thesis
    using parse_nat_digits[OF assms, of "nat (- i)"]
    by (simp add: parse_int_def show_int_def)
next
  case False
  obtain c cs where d: "digits (nat i) = c # cs"
    using digits_nonempty[of "nat i"] by (cases "digits (nat i)") auto
  with digits_all_digits[of "nat i"] have "is_digit c" by simp
  then have "c \<noteq> CHR ''-''" by (auto simp: is_digit_def)
  with False d show ?thesis
    using parse_nat_digits[OF assms, of "nat i"]
    by (simp add: parse_int_def show_int_def)
qed

lemma show_int_start:
  "\<exists>c cs. show_int i = c # cs \<and> (c = CHR ''-'' \<or> is_digit c)"
proof (cases "i < 0")
  case True
  then show ?thesis by (simp add: show_int_def)
next
  case False
  obtain c cs where d: "digits (nat i) = c # cs"
    using digits_nonempty[of "nat i"] by (cases "digits (nat i)") auto
  with digits_all_digits[of "nat i"] have "is_digit c" by simp
  with False d show ?thesis by (simp add: show_int_def)
qed

lemma show_int_chars: "c \<in> set (show_int i) \<Longrightarrow> c = CHR ''-'' \<or> is_digit c"
  using digits_all_digits by (auto simp: show_int_def split: if_splits)

subsection \<open>Strings\<close>

lemma parse_string_quote: "parse_string acc (CHR 0x22 # rest) = Some (acc, rest)"
  by (cases rest) simp_all

lemma hex_val_hex_digit: "k < 16 \<Longrightarrow> hex_val (hex_digit k) = Some k"
  by (auto simp: hex_val_def hex_digit_def Let_def)

lemma hex4_code:
  assumes "n < 256"
  shows "hex4 (CHR ''0'') (CHR ''0'') (hex_digit (n div 16)) (hex_digit (n mod 16)) = Some n"
proof -
  have z: "hex_val (CHR ''0'') = Some 0" by (simp add: hex_val_def)
  from assms have "n div 16 < 16" by simp
  then have h: "hex_val (hex_digit (n div 16)) = Some (n div 16)" by (rule hex_val_hex_digit)
  have l: "hex_val (hex_digit (n mod 16)) = Some (n mod 16)" by (rule hex_val_hex_digit) simp
  show ?thesis by (simp add: hex4_def z h l)
qed

lemma parse_string_unicode:
  "parse_string acc (CHR 0x5C # CHR ''u'' # CHR ''0'' # CHR ''0'' # hex_digit (n div 16) # hex_digit (n mod 16) # e # cs) =
   (if n < 256 then parse_string (acc @ [char_of n]) (e # cs) else parse_string acc (CHR 0x5C # CHR ''u'' # CHR ''0'' # CHR ''0'' # hex_digit (n div 16) # hex_digit (n mod 16) # e # cs))"
  by (simp add: hex4_code)

lemma parse_string_escape:
  assumes "of_char c < (128::nat)"
  shows "parse_string acc (escape_char c @ e # cs) = parse_string (acc @ [c]) (e # cs)"
proof -
  consider "c = CHR 0x22" | "c = CHR 0x5C" | "c = CHR 0x0A" | "c = CHR 0x0D" | "c = CHR 0x09"
    | "c = CHR 0x08" | "c = CHR 0x0C"
    | "c \<noteq> CHR 0x22" "c \<noteq> CHR 0x5C" "32 \<le> (of_char c :: nat)" "(of_char c :: nat) \<le> 126"
    | "c \<noteq> CHR 0x22" "c \<noteq> CHR 0x5C" "c \<noteq> CHR 0x0A" "c \<noteq> CHR 0x0D" "c \<noteq> CHR 0x09" "c \<noteq> CHR 0x08"
      "c \<noteq> CHR 0x0C" "\<not> (32 \<le> (of_char c :: nat) \<and> (of_char c :: nat) \<le> 126)"
    by blast
  then show ?thesis
  proof cases
    case 1 then show ?thesis by (simp add: escape_char_def unescape_def)
  next
    case 2 then show ?thesis by (simp add: escape_char_def unescape_def)
  next
    case 3 then show ?thesis by (simp add: escape_char_def unescape_def)
  next
    case 4 then show ?thesis by (simp add: escape_char_def unescape_def)
  next
    case 5 then show ?thesis by (simp add: escape_char_def unescape_def)
  next
    case 6 then show ?thesis by (simp add: escape_char_def unescape_def)
  next
    case 7 then show ?thesis by (simp add: escape_char_def unescape_def)
  next
    case 8
    then have "escape_char c = [c]"
      by (auto simp: escape_char_def char_eq_code)
    with 8 show ?thesis by simp
  next
    case 9
    then have "escape_char c = [CHR 0x5C, CHR ''u'', CHR ''0'', CHR ''0'',
            hex_digit ((of_char c :: nat) div 16), hex_digit ((of_char c :: nat) mod 16)]"
      by (simp add: escape_char_def)
    then show ?thesis
      using parse_string_unicode[of acc "of_char c" e cs] by simp
  qed
qed

lemma parse_string_round_trip:
  assumes "\<forall>c \<in> set s. of_char c < (128::nat)"
  shows "parse_string acc (concat (map escape_char s) @ CHR 0x22 # rest) = Some (acc @ s, rest)"
  using assms
proof (induction s arbitrary: acc)
  case Nil
  show ?case by (simp add: parse_string_quote)
next
  case (Cons c s)
  obtain e cs where tail: "concat (map escape_char s) @ CHR 0x22 # rest = e # cs"
    by (cases "concat (map escape_char s) @ CHR 0x22 # rest") auto
  from Cons.prems have c: "of_char c < (128::nat)" by simp
  have "parse_string acc (concat (map escape_char (c # s)) @ CHR 0x22 # rest) =
        parse_string acc (escape_char c @ e # cs)"
    using tail by simp
  also have "\<dots> = parse_string (acc @ [c]) (e # cs)"
    using c by (rule parse_string_escape)
  also have "\<dots> = Some ((acc @ [c]) @ s, rest)"
    using Cons.IH[of "acc @ [c]"] Cons.prems tail by simp
  finally show ?case by simp
qed

lemma parse_string_quote_round_trip:
  assumes "\<forall>c \<in> set s. of_char c < (128::nat)"
  shows "\<exists>cs. quote s @ rest = CHR 0x22 # cs \<and> parse_string [] cs = Some (s, rest)"
  using parse_string_round_trip[OF assms, of "[]" rest] by (simp add: quote_def)

lemma escape_char_no_newline: "CHR 0x0A \<notin> set (escape_char c)"
proof -
  have h: "hex_digit k \<noteq> CHR 0x0A" if "k < 16" for k
    using that by (auto simp: hex_digit_def char_eq_code)
  have "(of_char c :: nat) div 16 < 16" "(of_char c :: nat) mod 16 < 16"
    using nat_of_char_less_256[of c] by (simp_all add: div_less_iff_less_mult)
  then have "hex_digit ((of_char c :: nat) div 16) \<noteq> CHR 0x0A"
    and "hex_digit ((of_char c :: nat) mod 16) \<noteq> CHR 0x0A"
    by (simp_all add: h)
  then have "CHR 0x0A \<noteq> hex_digit ((of_char c :: nat) div 16)"
    and "CHR 0x0A \<noteq> hex_digit ((of_char c :: nat) mod 16)"
    by (simp_all add: not_sym)
  then show ?thesis by (simp add: escape_char_def)
qed

lemma quote_no_newline: "CHR 0x0A \<notin> set (quote s)"
  using escape_char_no_newline by (auto simp: quote_def)

subsection \<open>Values\<close>

lemma entries_subset: "set (entries kvs) \<subseteq> set kvs"
  by (induction kvs rule: entries.induct) auto

lemma skip_ws_start: "s = [] \<or> \<not> is_ws (hd s) \<Longrightarrow> skip_ws s = s"
  by (cases s) (auto simp: skip_ws_def)

lemma commas_Cons: "xs \<noteq> [] \<Longrightarrow> commas (x # xs) = x @ '','' @ commas xs"
  by (cases xs) simp_all

lemma quote_start: "\<exists>cs. quote s = CHR 0x22 # cs"
  by (simp add: quote_def)

lemma json_dumps_start:
  "\<exists>c cs. json_dumps v = c # cs \<and> \<not> is_ws c \<and> c \<noteq> CHR '']''"
proof (cases v)
  case (JInt i)
  from show_int_start[of i] obtain c cs where "show_int i = c # cs" "c = CHR ''-'' \<or> is_digit c"
    by blast
  with JInt show ?thesis by (auto simp: is_ws_def is_digit_def)
qed (auto simp: is_ws_def quote_def)

lemma json_dumps_nonempty: "json_dumps v \<noteq> []"
  using json_dumps_start[of v] by auto

lemma skip_ws_dumps: "skip_ws (json_dumps v @ rest) = json_dumps v @ rest"
  using json_dumps_start[of v] by (auto intro: skip_ws_start)

lemma length_commas_ge: "x \<in> set xs \<Longrightarrow> length x \<le> length (commas xs)"
  by (induction xs rule: commas.induct) auto

text \<open>How \<open>parse_value\<close> dispatches on the first character.\<close>

lemma parse_value_string:
  "parse_value (Suc n) (CHR 0x22 # cs) =
   (case parse_string [] cs of Some (str, rest) \<Rightarrow> Some (JStr str, rest) | None \<Rightarrow> None)"
  by simp

lemma parse_value_number:
  assumes "c = CHR ''-'' \<or> is_digit c"
  shows "parse_value (Suc n) (c # cs) = parse_int (c # cs)"
proof -
  from assms have "c \<noteq> CHR 0x22" "c \<noteq> CHR ''{''" "c \<noteq> CHR ''[''" "c \<noteq> CHR ''n''" "c \<noteq> CHR ''t''" "c \<noteq> CHR ''f''"
    by (auto simp: is_digit_def)
  then show ?thesis
    by (cases cs) (auto simp: take_Suc_conv_app_nth)
qed

lemma parse_value_array:
  assumes "\<not> is_ws d" "d \<noteq> CHR '']''"
  shows "parse_value (Suc n) (CHR ''['' # d # ds) = parse_elements n [] (d # ds)"
  using assms by (simp add: skip_ws_start)

lemma parse_value_object:
  assumes "\<not> is_ws d" "d \<noteq> CHR ''}''"
  shows "parse_value (Suc n) (CHR ''{'' # d # ds) = parse_members n [] (d # ds)"
  using assms by (simp add: skip_ws_start)

lemma no_digit_ahead_delims [simp]:
  "no_digit_ahead (CHR '']'' # rest)" "no_digit_ahead (CHR '','' # rest)"
  "no_digit_ahead (CHR ''}'' # rest)" "no_digit_ahead [CHR 0x0A]" "no_digit_ahead []"
  by (simp_all add: no_digit_ahead_def is_digit_def)

lemma skip_ws_delims [simp]:
  "skip_ws (CHR '']'' # rest) = CHR '']'' # rest" "skip_ws (CHR '','' # rest) = CHR '','' # rest"
  "skip_ws (CHR ''}'' # rest) = CHR ''}'' # rest" "skip_ws (CHR '':'' # rest) = CHR '':'' # rest"
  by (simp_all add: skip_ws_def is_ws_def)

lemma parse_elements_round_trip:
  assumes "xs \<noteq> []"
    and "\<And>x n rest. x \<in> set xs \<Longrightarrow> length (json_dumps x) \<le> n \<Longrightarrow> no_digit_ahead rest \<Longrightarrow>
           parse_value n (json_dumps x @ rest) = Some (reread x, rest)"
    and "length (commas (map json_dumps xs)) < n"
  shows "parse_elements n acc (commas (map json_dumps xs) @ CHR '']'' # rest) =
         Some (JList (acc @ map reread xs), rest)"
  using assms
proof (induction xs arbitrary: n acc rule: list_nonempty_induct)
  case (single x)
  from single.prems(2) obtain m where n: "n = Suc m" and m: "length (json_dumps x) \<le> m"
    by (cases n) auto
  from single.prems(1)[of x m "CHR '']'' # rest"] m
  have "parse_value m (json_dumps x @ CHR '']'' # rest) = Some (reread x, CHR '']'' # rest)"
    by simp
  then show ?case by (simp add: n)
next
  case (cons x xs)
  from cons.hyps have c: "commas (json_dumps x # map json_dumps xs) = json_dumps x @ CHR '','' # commas (map json_dumps xs)"
    by (simp add: commas_Cons)
  from cons.prems(2) c obtain m where n: "n = Suc m" and m: "length (json_dumps x) \<le> m"
    and m': "length (commas (map json_dumps xs)) < m"
    using json_dumps_nonempty[of x] by (cases n) (auto simp: Suc_le_eq)
  from cons.prems(1)[of x m "CHR '','' # commas (map json_dumps xs) @ CHR '']'' # rest"] m
  have pv: "parse_value m (json_dumps x @ CHR '','' # commas (map json_dumps xs) @ CHR '']'' # rest) =
        Some (reread x, CHR '','' # commas (map json_dumps xs) @ CHR '']'' # rest)"
    by simp
  obtain y ys where xs: "xs = y # ys" using cons.hyps by (cases xs) auto
  have sk: "skip_ws (commas (map json_dumps xs) @ CHR '']'' # rest) = commas (map json_dumps xs) @ CHR '']'' # rest"
  proof (cases ys)
    case Nil
    with xs show ?thesis by (simp add: skip_ws_dumps)
  next
    case (Cons z zs)
    with xs show ?thesis using skip_ws_dumps[of y] by simp
  qed
  have IH: "parse_elements m (acc @ [reread x]) (commas (map json_dumps xs) @ CHR '']'' # rest) =
        Some (JList ((acc @ [reread x]) @ map reread xs), rest)"
    using cons.prems(1) m' by (intro cons.IH) auto
  show ?case
    using pv IH by (simp add: n c sk)
qed

lemma parse_members_round_trip:
  assumes "es \<noteq> []"
    and f: "\<And>kv. f kv = quote (fst kv) @ CHR '':'' # json_dumps (snd kv)"
    and "\<And>kv n rest. kv \<in> set es \<Longrightarrow> length (json_dumps (snd kv)) \<le> n \<Longrightarrow> no_digit_ahead rest \<Longrightarrow>
           parse_value n (json_dumps (snd kv) @ rest) = Some (reread (snd kv), rest)"
    and "\<forall>kv \<in> set es. \<forall>c \<in> set (fst kv). of_char c < (128::nat)"
    and "length (commas (map f es)) < n"
  shows "parse_members n acc (commas (map f es) @ CHR ''}'' # rest) =
         Some (JObj (rev (map (\<lambda>kv. (fst kv, reread (snd kv))) es) @ acc), rest)"
  using assms(1,3,4,5)
proof (induction es arbitrary: n acc rule: list_nonempty_induct)
  case (single kv)
  let ?k = "fst kv" and ?v = "snd kv"
  from single.prems(3) obtain m where n: "n = Suc m" and m: "length (json_dumps ?v) \<le> m"
    by (cases n) (auto simp: f)
  from single.prems(2) have "\<forall>c \<in> set ?k. of_char c < (128::nat)" by simp
  from parse_string_quote_round_trip[OF this, of "CHR '':'' # json_dumps ?v @ CHR ''}'' # rest"]
  obtain cs where q: "quote ?k @ CHR '':'' # json_dumps ?v @ CHR ''}'' # rest = CHR 0x22 # cs"
    and ps: "parse_string [] cs = Some (?k, CHR '':'' # json_dumps ?v @ CHR ''}'' # rest)"
    by blast
  from single.prems(1)[of kv m "CHR ''}'' # rest"] m
  have pv: "parse_value m (json_dumps ?v @ CHR ''}'' # rest) = Some (reread ?v, CHR ''}'' # rest)"
    by simp
  have "parse_members n acc (quote ?k @ CHR '':'' # json_dumps ?v @ CHR ''}'' # rest) =
        Some (JObj ((?k, reread ?v) # acc), rest)"
    unfolding q n using ps pv by (simp add: skip_ws_dumps)
  then show ?case by (simp add: f)
next
  case (cons kv es)
  let ?k = "fst kv" and ?v = "snd kv"
  let ?tail = "commas (map f es) @ CHR ''}'' # rest"
  from cons.hyps have c: "commas (f kv # map f es) = f kv @ CHR '','' # commas (map f es)"
    by (simp add: commas_Cons)
  from cons.prems(3) have "length (commas (f kv # map f es)) < n" by simp
  then have "length (f kv) + 1 + length (commas (map f es)) < n"
    unfolding c by simp
  moreover have "length (f kv) = length (quote ?k) + 1 + length (json_dumps ?v)"
    unfolding f by simp
  ultimately obtain m where n: "n = Suc m" and m: "length (json_dumps ?v) \<le> m"
    and m': "length (commas (map f es)) < m"
    by (cases n) auto
  from cons.prems(2) have "\<forall>c \<in> set ?k. of_char c < (128::nat)" by simp
  from parse_string_quote_round_trip[OF this, of "CHR '':'' # json_dumps ?v @ CHR '','' # ?tail"]
  obtain cs where q: "quote ?k @ CHR '':'' # json_dumps ?v @ CHR '','' # ?tail = CHR 0x22 # cs"
    and ps: "parse_string [] cs = Some (?k, CHR '':'' # json_dumps ?v @ CHR '','' # ?tail)"
    by blast
  from cons.prems(1)[of kv m "CHR '','' # ?tail"] m
  have pv: "parse_value m (json_dumps ?v @ CHR '','' # ?tail) = Some (reread ?v, CHR '','' # ?tail)"
    by simp
  obtain e es' where es: "es = e # es'" using cons.hyps by (cases es) auto
  obtain qs where qs: "quote (fst e) = CHR 0x22 # qs" using quote_start by blast
  have "\<exists>ts. ?tail = CHR 0x22 # ts"
    using es qs by (cases es') (auto simp: f)
  then have sk: "skip_ws ?tail = ?tail"
    by (auto intro!: skip_ws_start simp: is_ws_def)
  have IH: "parse_members m ((?k, reread ?v) # acc) ?tail =
        Some (JObj (rev (map (\<lambda>kv. (fst kv, reread (snd kv))) es) @ (?k, reread ?v) # acc), rest)"
    using cons.prems(1,2) m' by (intro cons.IH) auto
  have "parse_members n acc (quote ?k @ CHR '':'' # json_dumps ?v @ CHR '','' # ?tail) =
        Some (JObj (rev (map (\<lambda>kv. (fst kv, reread (snd kv))) es) @ (?k, reread ?v) # acc), rest)"
    unfolding q n using ps pv IH sk by (simp add: skip_ws_dumps)
  moreover have "commas (map f (kv # es)) = quote ?k @ CHR '':'' # json_dumps ?v @ CHR '','' # commas (map f es)"
    using cons.hyps by (simp add: commas_Cons f[of kv])
  ultimately show ?case by simp
qed

lemma take_literal_ne:
  "c \<noteq> d \<Longrightarrow> take n (c # cs) \<noteq> d # ds"
  by (cases n) auto

lemma parse_value_round_trip:
  assumes "json_ascii v" and "length (json_dumps v) \<le> n" and "no_digit_ahead rest"
  shows "parse_value n (json_dumps v @ rest) = Some (reread v, rest)"
  using assms
proof (induction v arbitrary: n rest)
  case JNull
  then obtain m where "n = Suc m" by (cases n) auto
  then show ?case by simp
next
  case (JBool b)
  then obtain m where "n = Suc m" by (cases n) (auto split: if_splits)
  then show ?case by simp
next
  case (JInt i)
  from JInt.prems obtain m where n: "n = Suc m"
    using json_dumps_nonempty[of "JInt i"] by (cases n) auto
  from show_int_start[of i] obtain c cs where s: "show_int i = c # cs"
    and c: "c = CHR ''-'' \<or> is_digit c"
    by blast
  have "parse_value n (show_int i @ rest) = parse_int (show_int i @ rest)"
    unfolding n s using parse_value_number[OF c] by simp
  with JInt.prems show ?case by (simp add: parse_int_show_int)
next
  case (JStr s)
  from JStr.prems obtain m where n: "n = Suc m"
    using json_dumps_nonempty[of "JStr s"] by (cases n) auto
  from JStr.prems have "\<forall>c \<in> set s. of_char c < (128::nat)" by simp
  from parse_string_quote_round_trip[OF this, of rest]
  obtain cs where "quote s @ rest = CHR 0x22 # cs" "parse_string [] cs = Some (s, rest)"
    by blast
  then show ?case by (simp add: n)
next
  case (JList xs)
  from JList.prems obtain m where n: "n = Suc m" by (cases n) auto
  show ?case
  proof (cases "xs = []")
    case True
    then show ?thesis by (simp add: n)
  next
    case False
    then obtain y ys where xs: "xs = y # ys" by (cases xs) auto
    obtain d ds where d: "commas (map json_dumps xs) @ CHR '']'' # rest = d # ds"
      and dws: "\<not> is_ws d" and dne: "d \<noteq> CHR '']''"
    proof -
      from json_dumps_start[of y] obtain c cs where y: "json_dumps y = c # cs" and ws: "\<not> is_ws c"
        and "c \<noteq> CHR '']''"
        by blast
      moreover have "\<exists>ts. commas (map json_dumps xs) @ CHR '']'' # rest = c # ts"
        using xs y by (cases ys) auto
      ultimately show ?thesis using ws that by blast
    qed
    have IH: "parse_value k (json_dumps x @ r) = Some (reread x, r)"
      if "x \<in> set xs" "length (json_dumps x) \<le> k" "no_digit_ahead r" for x k r
      using that JList.prems(1) by (intro JList.IH) auto
    from JList.prems(2) have len: "length (commas (map json_dumps xs)) < m"
      by (simp add: n)
    have "parse_value n (CHR ''['' # d # ds) = parse_elements m [] (d # ds)"
      unfolding n using dws dne by (rule parse_value_array)
    also have "\<dots> = Some (JList ([] @ map reread xs), rest)"
      unfolding d[symmetric] using False IH len by (rule parse_elements_round_trip)
    finally show ?thesis using d by simp
  qed
next
  case (JObj kvs)
  from JObj.prems obtain m where n: "n = Suc m" by (cases n) auto
  define f where "f = (\<lambda>kv. quote (fst kv) @ '':'' @ json_dumps (snd kv))"
  have f: "f kv = quote (fst kv) @ CHR '':'' # json_dumps (snd kv)" for kv
    by (simp add: f_def)
  have dumps: "json_dumps (JObj kvs) = CHR ''{'' # commas (map f (entries kvs)) @ ''}''"
    by (simp add: f_def)
  show ?case
  proof (cases "entries kvs = []")
    case True
    then show ?thesis by (simp add: n)
  next
    case False
    then obtain e es where es: "entries kvs = e # es" by (cases "entries kvs") auto
    obtain ds where d: "commas (map f (entries kvs)) @ CHR ''}'' # rest = CHR 0x22 # ds"
    proof -
      obtain qs where "quote (fst e) = CHR 0x22 # qs" using quote_start by blast
      then have "\<exists>ts. commas (map f (entries kvs)) @ CHR ''}'' # rest = CHR 0x22 # ts"
        using es by (cases es) (auto simp: f)
      then show ?thesis using that by blast
    qed
    have IH: "parse_value k (json_dumps (snd kv) @ r) = Some (reread (snd kv), r)"
      if "kv \<in> set (entries kvs)" "length (json_dumps (snd kv)) \<le> k" "no_digit_ahead r" for kv k r
    proof -
      from that(1) entries_subset have kv: "kv \<in> set kvs" by blast
      have s: "snd kv \<in> Basic_BNFs.snds kv" by (cases kv) simp
      from kv JObj.prems(1) have "json_ascii (snd kv)" by simp
      with kv s that(2,3) show ?thesis by (intro JObj.IH)
    qed
    have keys: "\<forall>kv \<in> set (entries kvs). \<forall>c \<in> set (fst kv). of_char c < (128::nat)"
      using JObj.prems(1) entries_subset by auto
    from JObj.prems(2) have len: "length (commas (map f (entries kvs))) < m"
      by (simp add: n f_def)
    have "parse_value n (CHR ''{'' # CHR 0x22 # ds) = parse_members m [] (CHR 0x22 # ds)"
      unfolding n by (rule parse_value_object) (simp_all add: is_ws_def)
    also have "\<dots> = Some (JObj (rev (map (\<lambda>kv. (fst kv, reread (snd kv))) (entries kvs)) @ []), rest)"
      unfolding d[symmetric] using False f IH keys len by (rule parse_members_round_trip)
    finally show ?thesis unfolding dumps using d by simp
  qed
qed

lemma json_round_trip:
  assumes "json_ascii v"
  shows "json_loads (json_dumps v @ [CHR 0x0A]) = Some (reread v)"
proof -
  have "parse_value (2 * length (json_dumps v @ [CHR 0x0A]) + 2) (json_dumps v @ [CHR 0x0A]) =
        Some (reread v, [CHR 0x0A])"
    using assms by (intro parse_value_round_trip) simp_all
  moreover have "skip_ws [CHR 0x0A] = []" by (simp add: skip_ws_def is_ws_def)
  ultimately show ?thesis
    by (simp add: json_loads_def skip_ws_dumps)
qed

subsection \<open>The value read back\<close>

lemma entries_keys: "fst ` set (entries kvs) = fst ` set kvs"
  by (induction kvs rule: entries.induct) force+

lemma entries_distinct: "distinct (map fst (entries kvs))"
proof (induction kvs rule: entries.induct)
  case 1
  show ?case by simp
next
  case (2 k v kvs)
  have "k \<notin> fst ` set (entries (filter (\<lambda>kv. fst kv \<noteq> k) kvs))"
    unfolding entries_keys by auto
  with 2 show ?case by simp
qed

lemma map_of_entries: "map_of (entries kvs) = map_of kvs"
proof (induction kvs rule: entries.induct)
  case 1
  show ?case by simp
next
  case (2 k v kvs)
  have "map_of (filter (\<lambda>kv. fst kv \<noteq> k) kvs) x = map_of kvs x" if "x \<noteq> k" for x
    using that by (induction kvs) auto
  with 2 show ?case by (auto simp: fun_eq_iff)
qed

lemma map_of_rev_distinct:
  assumes "distinct (map fst xs)"
  shows "map_of (rev xs) = map_of xs"
proof -
  from assms have "distinct (map fst (rev xs))" by (simp add: rev_map[symmetric])
  then show ?thesis using assms by (simp add: map_of_inject_set)
qed

lemma map_of_reread:
  "map_of (rev (map (\<lambda>kv. (fst kv, g (snd kv))) (entries kvs))) k = map_option g (map_of kvs k)"
proof -
  have m: "map (\<lambda>kv. (fst kv, g (snd kv))) xs = map (\<lambda>(k, v). (k, g v)) xs" for xs
    by (simp add: case_prod_unfold)
  have "distinct (map fst (map (\<lambda>kv. (fst kv, g (snd kv))) (entries kvs)))"
    using entries_distinct[of kvs] by (simp add: comp_def)
  then have "map_of (rev (map (\<lambda>kv. (fst kv, g (snd kv))) (entries kvs))) =
             map_of (map (\<lambda>kv. (fst kv, g (snd kv))) (entries kvs))"
    by (rule map_of_rev_distinct)
  then show ?thesis
    by (simp add: m map_of_map map_of_entries)
qed

lemma py_eq_reread: "py_eq (reread v) v"
proof (induction v)
  case (JList xs)
  then show ?case by (simp add: list_all2_conv_all_nth)
next
  case (JObj kvs)
  let ?a = "rev (map (\<lambda>kv. (fst kv, reread (snd kv))) (entries kvs))"
  have keys: "set (map fst ?a) = set (map fst kvs)"
    using entries_keys[of kvs] by (simp add: image_image)
  have "py_eq (the (map_of ?a k)) (the (map_of kvs k))" if "k \<in> set (map fst kvs)" for k
  proof -
    from that obtain v where v: "map_of kvs k = Some v" "(k, v) \<in> set kvs" by (rule map_of_the_in)
    from JObj.IH[of "(k, v)" v] v have "py_eq (reread v) v" by simp
    then show ?thesis by (simp add: map_of_reread v)
  qed
  then have "\<forall>k \<in> set (map fst ?a). py_eq (the (map_of ?a k)) (the (map_of kvs k))"
    unfolding keys by blast
  with keys show ?case
    unfolding reread.simps py_eq.simps json.case by blast
qed simp_all

lemma commas_chars: "c \<in> set (commas xs) \<Longrightarrow> c = CHR '','' \<or> (\<exists>x \<in> set xs. c \<in> set x)"
  by (induction xs rule: commas.induct) auto

lemma json_dumps_no_newline: "CHR 0x0A \<notin> set (json_dumps v)"
proof (induction v)
  case (JInt i)
  show ?case using show_int_chars[of "CHR 0x0A" i] by (auto simp: is_digit_def)
next
  case (JStr s)
  show ?case by (simp add: quote_no_newline)
next
  case (JList xs)
  have "CHR 0x0A \<notin> set (commas (map json_dumps xs))"
    using JList.IH by (auto dest!: commas_chars)
  then show ?case by simp
next
  case (JObj kvs)
  have "CHR 0x0A \<notin> set (quote (fst kv) @ '':'' @ json_dumps (snd kv))" if "kv \<in> set (entries kvs)" for kv
  proof -
    from that entries_subset have "kv \<in> set kvs" by blast
    moreover have "snd kv \<in> Basic_BNFs.snds kv" by (cases kv) simp
    ultimately have "CHR 0x0A \<notin> set (json_dumps (snd kv))" by (rule JObj.IH)
    then show ?thesis by (simp add: quote_no_newline)
  qed
  then have "CHR 0x0A \<notin> set (commas (map (\<lambda>kv. quote (fst kv) @ '':'' @ json_dumps (snd kv)) (entries kvs)))"
    by (auto dest!: commas_chars)
  then show ?case by simp
qed (auto split: if_splits)

lemma reread_obj: "is_obj (reread (JObj kvs))"
  by (simp add: is_obj_def)

section \<open>Logs written by the storage\<close>

lemma python_json_round_trips:
  assumes "json_ascii (JObj line)"
  shows "round_trips python_json line"
    and "loads python_json (dumps python_json (JObj line) @ [CHR 0x0A]) = Some (reread (JObj line))"
    and "CHR 0x0A \<notin> set (dumps python_json (JObj line))"
    and "py_eq (reread (JObj line)) (JObj line)"
proof -
  show l: "loads python_json (dumps python_json (JObj line) @ [CHR 0x0A]) = Some (reread (JObj line))"
    using json_round_trip[OF assms] by (simp add: python_json_def)
  show n: "CHR 0x0A \<notin> set (dumps python_json (JObj line))"
    using json_dumps_no_newline[of "JObj line"] by (simp add: python_json_def)
  show e: "py_eq (reread (JObj line)) (JObj line)" by (rule py_eq_reread)
  from l n e show "round_trips python_json line"
    unfolding round_trips_def using reread_obj[of line] by blast
qed

lemma sound_logs_append:
  assumes s: "sound_logs J self fs"
    and rt: "round_trips J line"
    and p: "p \<in> {tests_path self, results_path self, alts_path self}"
  shows "sound_logs J self (append_line J p line fs)"
proof -
  from rt obtain r where nl: "CHR 0x0A \<notin> set (dumps J (JObj line))"
    and l: "loads J (dumps J (JObj line) @ [CHR 0x0A]) = Some r" and o: "is_obj r"
    by (auto simp: round_trips_def)
  from s p have c: "complete_lines fs p" and ob: "object_log J fs p"
    by (auto simp: sound_logs_def)
  have here: "complete_lines (append_line J p line fs) p \<and> object_log J (append_line J p line fs) p"
    using log_records_append_line[OF c nl l] ob o complete_lines_append_line[of J p line fs]
    by (simp add: object_log_def)
  have other: "complete_lines (append_line J p line fs) q \<and> object_log J (append_line J p line fs) q"
    if "q \<in> {tests_path self, results_path self, alts_path self}" "q \<noteq> p" for q
  proof -
    from that s have "complete_lines fs q \<and> object_log J fs q" by (auto simp: sound_logs_def)
    with that(2) show ?thesis
      by (simp add: complete_lines_def object_log_def log_records_other append_line_other)
  qed
  show ?thesis
    unfolding sound_logs_def using here other by blast
qed

text \<open>Every file system that the storage methods reach from a directory without logs has
  sound logs: each log is made of complete lines, and each of its records is a
  dictionary.\<close>

lemma reachable_sound_logs:
  assumes "reachable J self fs"
  shows "sound_logs J self fs"
  using assms
proof (induction rule: reachable.induct)
  case (fresh fs)
  then show ?case
    by (simp add: sound_logs_def complete_lines_def object_log_def log_records_def)
next
  case (saved fs name alts r fs')
  from saved.hyps(3) have "fs' = fs \<or> fs' = append_line J (tests_path self) [(''t'', name), (''a'', alts)] fs"
    by (auto simp: save_test_cases split: sum.splits option.splits if_splits)
  with saved.IH saved.hyps(2) show ?case
    by (auto intro: sound_logs_append)
next
  case (recorded fs ident name alt act flag r fs')
  from recorded.hyps(3) have "fs' = append_line J (results_path self)
      [(''i'', ident), (''t'', name), (''n'', alt), (''a'', act), (''c'', flag)] fs"
    by (simp add: record_result_def)
  with recorded.IH recorded.hyps(2) show ?case
    by (auto intro: sound_logs_append)
next
  case (assigned fs ident name alt r fs')
  from assigned.hyps(3) have "fs' = fs \<or> fs' = append_line J (alts_path self)
      [(''i'', ident), (''t'', name), (''n'', alt)] fs"
    by (auto simp: set_alternative_cases split: sum.splits option.splits if_splits)
  with assigned.IH assigned.hyps(2) show ?case
    by (auto intro: sound_logs_append)
qed

section \<open>The exceptions of the lookups and of the report\<close>

lemma py_contains_error: "py_contains d key = Inl e \<Longrightarrow> e = TypeError"
  by (cases d) auto

lemma py_getitem_error: "py_getitem d key = Inl e \<Longrightarrow> e = TypeError \<or> e = KeyError"
  by (cases d) (auto split: option.splits)

lemma py_index_error: "py_index n v = Inl e \<Longrightarrow> e = TypeError \<or> e = IndexError"
  by (cases v) (auto split: if_splits)

lemma py_hash_error: "py_hash v = Inl e \<Longrightarrow> e = TypeError"
  by (cases v) auto

lemma py_iter_count_error: "py_iter_count v = Inl e \<Longrightarrow> e = TypeError"
  by (cases v) auto

lemma pattern_matches_error:
  "pattern_matches d p m = Inl e \<Longrightarrow> e = TypeError \<or> e = KeyError"
proof (induction p arbitrary: m)
  case Nil
  then show ?case by simp
next
  case (Cons kv p)
  obtain key val where kv: "kv = (key, val)" by (cases kv)
  show ?case
  proof (cases m)
    case False
    with Cons.prems kv have "pattern_matches d p False = Inl e" by simp
    then show ?thesis by (rule Cons.IH)
  next
    case True
    show ?thesis
    proof (cases "py_contains d key")
      case (Inl e')
      with Cons.prems kv True have "e = e'" by simp
      with Inl show ?thesis by (auto dest: py_contains_error)
    next
      case (Inr c)
      show ?thesis
      proof (cases c)
        case False
        with Cons.prems kv True Inr have "pattern_matches d p False = Inl e" by simp
        then show ?thesis by (rule Cons.IH)
      next
        case c: True
        show ?thesis
        proof (cases "py_getitem d key")
          case (Inl e')
          with Cons.prems kv True Inr c have "e = e'" by simp
          with Inl show ?thesis by (auto dest: py_getitem_error)
        next
          case (Inr v)
          with Cons.prems kv True \<open>py_contains d key = Inr c\<close> c
          have "pattern_matches d p (py_eq v val) = Inl e" by simp
          then show ?thesis by (rule Cons.IH)
        qed
      qed
    qed
  qed
qed

lemma find_lines_loop_error:
  "raised (find_lines_loop J pattern lines) = Some e \<Longrightarrow> e = TypeError \<or> e = KeyError"
proof (induction lines)
  case Nil
  then show ?case by simp
next
  case (Cons line lines)
  show ?case
  proof (cases "loads J line")
    case None
    with Cons show ?thesis by simp
  next
    case (Some data)
    show ?thesis
    proof (cases "pattern_matches data pattern True")
      case (Inl e')
      with Cons.prems Some have "e = e'" by simp
      with Inl show ?thesis by (auto dest: pattern_matches_error)
    next
      case (Inr m)
      with Cons Some show ?thesis by (cases m) simp_all
    qed
  qed
qed

lemma find_lines_error:
  "raised (find_lines J fs filename pattern) = Some e \<Longrightarrow> e = TypeError \<or> e = KeyError"
  by (cases "fs filename") (auto simp: find_lines_def dest: find_lines_loop_error)

lemma ab_report_step_error:
  "ab_report_step a b data res = Inl e \<Longrightarrow> e = TypeError \<or> e = KeyError \<or> e = IndexError"
  unfolding ab_report_step_def
  by (auto split: sum.splits if_splits
           dest: py_getitem_error py_index_error py_hash_error)

lemma ab_report_loop_error:
  "ab_report_loop a b g res = Inl e \<Longrightarrow>
     raised g = Some e \<or> e = TypeError \<or> e = KeyError \<or> e = IndexError"
proof (induction g arbitrary: res)
  case Stop
  then show ?case by simp
next
  case (Raise e')
  then show ?case by simp
next
  case (Yield data rest)
  show ?case
  proof (cases "ab_report_step a b data res")
    case (Inl e')
    with Yield.prems have "e = e'" by simp
    with Inl show ?thesis by (auto dest: ab_report_step_error)
  next
    case (Inr res')
    with Yield.prems have "ab_report_loop a b rest res' = Inl e" by simp
    then show ?thesis by (auto dest: Yield.IH)
  qed
qed

text \<open>With a definition of the test in reach of the lookup, \<^verbatim>\<open>ab_report\<close> raises none of
  the exceptions that the storage class constructs itself.\<close>

lemma ab_report_defined_error:
  assumes "find_line J fs (tests_path self) [(''t'', name)] = Inr (Some test)"
  shows "fst (ab_report J self name a b fs) \<noteq> Inl (Exception msg arg)"
proof (cases "py_getitem test ''a''")
  case (Inl e)
  with assms show ?thesis by (auto simp: ab_report_def dest: py_getitem_error)
next
  case alts: (Inr alts)
  show ?thesis
  proof (cases "py_iter_count alts")
    case (Inl e)
    with assms alts show ?thesis by (auto simp: ab_report_def dest: py_iter_count_error)
  next
    case n: (Inr n)
    show ?thesis
    proof (cases "ab_report_loop a b (find_lines J fs (results_path self) [(''t'', name)])
                    (replicate n ({}, {}))")
      case (Inl e)
      then have "e = TypeError \<or> e = KeyError \<or> e = IndexError"
        by (auto dest!: ab_report_loop_error find_lines_error)
      with assms alts n Inl show ?thesis by (auto simp: ab_report_def)
    next
      case (Inr res)
      with assms alts n show ?thesis by (simp add: ab_report_def)
    qed
  qed
qed

section \<open>The claims\<close>

subsection \<open>C1: the counts of the report\<close>

text \<open>
  Claim C1.  Whenever \<^verbatim>\<open>ab_report\<close> returns a report for a test, the test has a definition,
  the report carries the name and the alternatives of that definition and one pair of
  numbers for each alternative, and these numbers are the cardinalities of the two
  identity sets of the funnel over the result events of the test in file order
  (\<open>attempted_ids\<close>, \<open>completed_ids\<close>): an identity is attempted in an alternative when an
  event of the alternative has action \<open>a\<close>; it is completed when an event of the
  alternative has action \<open>b\<close> and a strictly earlier event has already attempted the
  identity in that alternative.  The report is returned whenever both logs hold
  dictionaries only, the first definition of the test has alternatives that can be
  counted, and every event of the test can be processed (\<open>countable_event\<close>).  For the
  scenario of the specification the report is 1 attempted, 1 completed for alternative 0,
  and 1 attempted, 0 completed for alternative 1.
\<close>

theorem ab_report_counts:
  "(\<forall>out fs'. ab_report J self name a b fs = (Inr out, fs') \<longrightarrow>
      fs' = fs \<and> test_name out = name \<and>
      (\<exists>test. find_line J fs (tests_path self) [(''t'', name)] = Inr (Some test) \<and>
              field test ''a'' = Some (alternatives out)) \<and>
      py_iter_count (alternatives out) = Inr (length (results out)) \<and>
      (\<forall>k < length (results out).
         attempted (results out ! k) =
           card (attempted_ids a (length (results out)) k (events_of J fs self name)) \<and>
         completed (results out ! k) =
           card (completed_ids a b (length (results out)) k (events_of J fs self name)))) \<and>
   (object_log J fs (tests_path self) \<and> object_log J fs (results_path self) \<and>
    filter (\<lambda>d. subset_match d [(''t'', name)]) (log_records J fs (tests_path self)) = test # others \<and>
    field test ''a'' = Some alts \<and> py_iter_count alts = Inr n \<and>
    (\<forall>e \<in> set (events_of J fs self name). countable_event a b n e) \<longrightarrow>
      (\<exists>out. ab_report J self name a b fs = (Inr out, fs))) \<and>
   ab_report python_json example_storage (JStr ''x'') (JStr ''shown'') (JStr ''converted'') funnel_fs =
     (Inr \<lparr> test_name = JStr ''x'', alternatives = JList [JStr ''A'', JStr ''B''],
            results = [\<lparr> attempted = 1, completed = 1 \<rparr>, \<lparr> attempted = 1, completed = 0 \<rparr>] \<rparr>,
      funnel_fs)"
proof (intro conjI allI impI)
  fix out fs'
  assume run: "ab_report J self name a b fs = (Inr out, fs')"
  from run show "fs' = fs" by (rule ab_report_success)
  from run show "test_name out = name" by (rule ab_report_success)
  from run show "\<exists>test. find_line J fs (tests_path self) [(''t'', name)] = Inr (Some test) \<and>
              field test ''a'' = Some (alternatives out)"
    by (rule ab_report_success) blast
  from run show "py_iter_count (alternatives out) = Inr (length (results out))"
    by (rule ab_report_success)
  fix k
  assume k: "k < length (results out)"
  from run have "results out ! k =
         \<lparr> attempted = card (attempted_ids a (length (results out)) k (events_of J fs self name)),
           completed = card (completed_ids a b (length (results out)) k (events_of J fs self name)) \<rparr>"
    by (rule ab_report_success) (use k in blast)
  then show "attempted (results out ! k) =
           card (attempted_ids a (length (results out)) k (events_of J fs self name))"
    and "completed (results out ! k) =
           card (completed_ids a b (length (results out)) k (events_of J fs self name))"
    by simp_all
next
  assume "object_log J fs (tests_path self) \<and> object_log J fs (results_path self) \<and>
    filter (\<lambda>d. subset_match d [(''t'', name)]) (log_records J fs (tests_path self)) = test # others \<and>
    field test ''a'' = Some alts \<and> py_iter_count alts = Inr n \<and>
    (\<forall>e \<in> set (events_of J fs self name). countable_event a b n e)"
  then show "\<exists>out. ab_report J self name a b fs = (Inr out, fs)"
    using ab_report_returns[of J fs self name test others alts n a b] by blast
next
  show "ab_report python_json example_storage (JStr ''x'') (JStr ''shown'') (JStr ''converted'') funnel_fs =
     (Inr \<lparr> test_name = JStr ''x'', alternatives = JList [JStr ''A'', JStr ''B''],
            results = [\<lparr> attempted = 1, completed = 1 \<rparr>, \<lparr> attempted = 1, completed = 0 \<rparr>] \<rparr>,
      funnel_fs)"
    using funnel_report ab_report_frame[of python_json example_storage "JStr ''x''" "JStr ''shown''"
        "JStr ''converted''" funnel_fs]
    by (metis prod.collapse)
qed

text \<open>The theorem at the funnel scenario: the log is the one that the calls of the scenario
  write, its four events are the events of test \<^verbatim>\<open>x\<close> and can all be processed, the
  conversion of \<^verbatim>\<open>u2\<close> has no earlier \<^verbatim>\<open>shown\<close> and is not counted, and the numbers of the
  report are the cardinalities of the identity sets.\<close>

theorem ab_report_counts_witness:
  "snd (record_result python_json example_storage (JStr ''u3'') (JStr ''x'') (JInt 1) (JStr ''shown'') (JBool False)
     (snd (record_result python_json example_storage (JStr ''u2'') (JStr ''x'') (JInt 0) (JStr ''converted'') (JBool False)
       (snd (record_result python_json example_storage (JStr ''u1'') (JStr ''x'') (JInt 0) (JStr ''converted'') (JBool False)
         (snd (record_result python_json example_storage (JStr ''u1'') (JStr ''x'') (JInt 0) (JStr ''shown'') (JBool False)
           (snd (save_test python_json example_storage (JStr ''x'') (JList [JStr ''A'', JStr ''B'']) Map.empty))))))))) =
     funnel_fs \<and>
   object_log python_json funnel_fs (tests_path example_storage) \<and>
   object_log python_json funnel_fs (results_path example_storage) \<and>
   filter (\<lambda>d. subset_match d [(''t'', JStr ''x'')]) (log_records python_json funnel_fs (tests_path example_storage)) =
     [JObj [(''a'', JList [JStr ''A'', JStr ''B'']), (''t'', JStr ''x'')]] \<and>
   field (JObj [(''a'', JList [JStr ''A'', JStr ''B'']), (''t'', JStr ''x'')]) ''a'' =
     Some (JList [JStr ''A'', JStr ''B'']) \<and>
   py_iter_count (JList [JStr ''A'', JStr ''B'']) = Inr 2 \<and>
   list_all (countable_event (JStr ''shown'') (JStr ''converted'') 2)
     (events_of python_json funnel_fs example_storage (JStr ''x'')) \<and>
   ab_report python_json example_storage (JStr ''x'') (JStr ''shown'') (JStr ''converted'') funnel_fs =
     (Inr \<lparr> test_name = JStr ''x'', alternatives = JList [JStr ''A'', JStr ''B''],
            results = [\<lparr> attempted = 1, completed = 1 \<rparr>, \<lparr> attempted = 1, completed = 0 \<rparr>] \<rparr>,
      funnel_fs) \<and>
   events_of python_json funnel_fs example_storage (JStr ''x'') =
     [JObj [(''c'', JBool False), (''a'', JStr ''shown''), (''n'', JInt 0), (''t'', JStr ''x''), (''i'', JStr ''u1'')],
      JObj [(''c'', JBool False), (''a'', JStr ''converted''), (''n'', JInt 0), (''t'', JStr ''x''), (''i'', JStr ''u1'')],
      JObj [(''c'', JBool False), (''a'', JStr ''converted''), (''n'', JInt 0), (''t'', JStr ''x''), (''i'', JStr ''u2'')],
      JObj [(''c'', JBool False), (''a'', JStr ''shown''), (''n'', JInt 1), (''t'', JStr ''x''), (''i'', JStr ''u3'')]] \<and>
   attempted_ids (JStr ''shown'') 2 0 (events_of python_json funnel_fs example_storage (JStr ''x'')) =
     {HStr ''u1''} \<and>
   completed_ids (JStr ''shown'') (JStr ''converted'') 2 0
       (events_of python_json funnel_fs example_storage (JStr ''x'')) = {HStr ''u1''} \<and>
   attempted_ids (JStr ''shown'') 2 1 (events_of python_json funnel_fs example_storage (JStr ''x'')) =
     {HStr ''u3''} \<and>
   completed_ids (JStr ''shown'') (JStr ''converted'') 2 1
       (events_of python_json funnel_fs example_storage (JStr ''x'')) = {} \<and>
   card (attempted_ids (JStr ''shown'') 2 0 (events_of python_json funnel_fs example_storage (JStr ''x''))) = 1 \<and>
   card (completed_ids (JStr ''shown'') (JStr ''converted'') 2 0
       (events_of python_json funnel_fs example_storage (JStr ''x''))) = 1 \<and>
   card (attempted_ids (JStr ''shown'') 2 1 (events_of python_json funnel_fs example_storage (JStr ''x''))) = 1 \<and>
   card (completed_ids (JStr ''shown'') (JStr ''converted'') 2 1
       (events_of python_json funnel_fs example_storage (JStr ''x''))) = 0"
proof -
  let ?out = "\<lparr> test_name = JStr ''x'', alternatives = JList [JStr ''A'', JStr ''B''],
            results = [\<lparr> attempted = 1, completed = 1 \<rparr>, \<lparr> attempted = 1, completed = 0 \<rparr>] \<rparr>"
  let ?evs = "events_of python_json funnel_fs example_storage (JStr ''x'')"
  let ?test = "JObj [(''a'', JList [JStr ''A'', JStr ''B'']), (''t'', JStr ''x'')]"
  have d0: \<open>dumps python_json (JObj [(''t'', JStr ''x''), (''a'', JList [JStr ''A'', JStr ''B''])]) =
      ''{"t":"x","a":["A","B"]}''\<close>
    by code_simp
  have d1: \<open>dumps python_json (JObj [(''i'', JStr ''u1''), (''t'', JStr ''x''), (''n'', JInt 0),
      (''a'', JStr ''shown''), (''c'', JBool False)]) = ''{"i":"u1","t":"x","n":0,"a":"shown","c":false}''\<close>
    by code_simp
  have d2: \<open>dumps python_json (JObj [(''i'', JStr ''u1''), (''t'', JStr ''x''), (''n'', JInt 0),
      (''a'', JStr ''converted''), (''c'', JBool False)]) = ''{"i":"u1","t":"x","n":0,"a":"converted","c":false}''\<close>
    by code_simp
  have d3: \<open>dumps python_json (JObj [(''i'', JStr ''u2''), (''t'', JStr ''x''), (''n'', JInt 0),
      (''a'', JStr ''converted''), (''c'', JBool False)]) = ''{"i":"u2","t":"x","n":0,"a":"converted","c":false}''\<close>
    by code_simp
  have d4: \<open>dumps python_json (JObj [(''i'', JStr ''u3''), (''t'', JStr ''x''), (''n'', JInt 1),
      (''a'', JStr ''shown''), (''c'', JBool False)]) = ''{"i":"u3","t":"x","n":1,"a":"shown","c":false}''\<close>
    by code_simp
  have none: "find_line python_json Map.empty (tests_path example_storage) [(''t'', JStr ''x'')] = Inr None"
    by (simp add: find_line_def find_lines_def)
  have s0: \<open>save_test python_json example_storage (JStr ''x'') (JList [JStr ''A'', JStr ''B'']) Map.empty =
      (Inr (), Map.empty(''/var/dabble/tests.dabble'' \<mapsto> ''{"t":"x","a":["A","B"]}\<newline>''))\<close>
    by (simp add: save_test_cases none append_line_eq d0) (simp add: example_paths)
  have reach: "snd (record_result python_json example_storage (JStr ''u3'') (JStr ''x'') (JInt 1) (JStr ''shown'') (JBool False)
     (snd (record_result python_json example_storage (JStr ''u2'') (JStr ''x'') (JInt 0) (JStr ''converted'') (JBool False)
       (snd (record_result python_json example_storage (JStr ''u1'') (JStr ''x'') (JInt 0) (JStr ''converted'') (JBool False)
         (snd (record_result python_json example_storage (JStr ''u1'') (JStr ''x'') (JInt 0) (JStr ''shown'') (JBool False)
           (snd (save_test python_json example_storage (JStr ''x'') (JList [JStr ''A'', JStr ''B'']) Map.empty))))))))) =
     funnel_fs"
    by (simp add: s0 record_result_def append_line_eq d1 d2 d3 d4)
       (simp add: example_paths funnel_fs_def)
  have o1: "object_log python_json funnel_fs (tests_path example_storage)"
    and o2: "object_log python_json funnel_fs (results_path example_storage)"
    by code_simp+
  have fl: "filter (\<lambda>d. subset_match d [(''t'', JStr ''x'')])
      (log_records python_json funnel_fs (tests_path example_storage)) = [?test]"
    by code_simp
  have fa: "field ?test ''a'' = Some (JList [JStr ''A'', JStr ''B''])" by (simp add: field_def)
  have pc: "py_iter_count (JList [JStr ''A'', JStr ''B'']) = Inr 2" by simp
  have evs: "?evs =
     [JObj [(''c'', JBool False), (''a'', JStr ''shown''), (''n'', JInt 0), (''t'', JStr ''x''), (''i'', JStr ''u1'')],
      JObj [(''c'', JBool False), (''a'', JStr ''converted''), (''n'', JInt 0), (''t'', JStr ''x''), (''i'', JStr ''u1'')],
      JObj [(''c'', JBool False), (''a'', JStr ''converted''), (''n'', JInt 0), (''t'', JStr ''x''), (''i'', JStr ''u2'')],
      JObj [(''c'', JBool False), (''a'', JStr ''shown''), (''n'', JInt 1), (''t'', JStr ''x''), (''i'', JStr ''u3'')]]"
    by code_simp
  have ce: "list_all (countable_event (JStr ''shown'') (JStr ''converted'') 2) ?evs"
    unfolding evs by code_simp
  have a0: "attempted_ids (JStr ''shown'') 2 0 ?evs = {HStr ''u1''}"
    and c0: "completed_ids (JStr ''shown'') (JStr ''converted'') 2 0 ?evs = {HStr ''u1''}"
    and a1: "attempted_ids (JStr ''shown'') 2 1 ?evs = {HStr ''u3''}"
    and c1: "completed_ids (JStr ''shown'') (JStr ''converted'') 2 1 ?evs = {}"
    unfolding evs by code_simp+
  note t = ab_report_counts[of python_json example_storage "JStr ''x''" "JStr ''shown''" "JStr ''converted''"
      funnel_fs ?test "[]" "JList [JStr ''A'', JStr ''B'']" 2]
  from t have run: "ab_report python_json example_storage (JStr ''x'') (JStr ''shown'') (JStr ''converted'') funnel_fs =
     (Inr ?out, funnel_fs)"
    and gen: "\<forall>k<length (results ?out).
         attempted (results ?out ! k) = card (attempted_ids (JStr ''shown'') (length (results ?out)) k ?evs) \<and>
         completed (results ?out ! k) =
           card (completed_ids (JStr ''shown'') (JStr ''converted'') (length (results ?out)) k ?evs)"
    by blast+
  from t o1 o2 fl fa pc ce
  have "\<exists>out. ab_report python_json example_storage (JStr ''x'') (JStr ''shown'') (JStr ''converted'') funnel_fs =
     (Inr out, funnel_fs)"
    by (simp add: list_all_iff)
  from gen[rule_format, of 0] gen[rule_format, of 1]
  have cards: "card (attempted_ids (JStr ''shown'') 2 0 ?evs) = 1"
    "card (completed_ids (JStr ''shown'') (JStr ''converted'') 2 0 ?evs) = 1"
    "card (attempted_ids (JStr ''shown'') 2 1 ?evs) = 1"
    "card (completed_ids (JStr ''shown'') (JStr ''converted'') 2 1 ?evs) = 0"
    by (simp_all add: numeral_2_eq_2)
  from reach o1 o2 fl fa pc ce run evs a0 c0 a1 c1 cards show ?thesis by blast
qed

subsection \<open>C2: registering a test\<close>

text \<open>
  Claim C2, amended.  Let every line of the tests log that parses be a dictionary, and
  take the records of the log that have a field \<^verbatim>\<open>t\<close> equal to \<open>name\<close>, in file order.  If
  there is none, \<^verbatim>\<open>save_test\<close> succeeds and the tests log grows by one line, the serialised
  definition.  If there are some, the first of them decides: when its alternatives differ
  from the given ones, \<^verbatim>\<open>save_test\<close> raises the conflict exception and leaves the file
  system as it was; when they are equal, \<^verbatim>\<open>save_test\<close> succeeds and appends the line once
  more, although the log holds the definition already; when the record has no field \<^verbatim>\<open>a\<close>,
  \<^verbatim>\<open>save_test\<close> raises \<^verbatim>\<open>KeyError\<close> and leaves the file system as it was.
\<close>

theorem save_test_conflict_or_append:
  assumes "object_log J fs (tests_path self)"
  shows
   \<open>(filter (\<lambda>d. subset_match d [(''t'', name)]) (log_records J fs (tests_path self)) = [] \<longrightarrow>
       save_test J self name alts fs =
         (Inr (),
          fs(tests_path self \<mapsto>
               (case fs (tests_path self) of None \<Rightarrow> [] | Some content \<Rightarrow> content) @
               dumps J (JObj [(''t'', name), (''a'', alts)]) @ [CHR 0x0A]))) \<and>
    (filter (\<lambda>d. subset_match d [(''t'', name)]) (log_records J fs (tests_path self)) = ex # others \<and>
     field ex ''a'' = Some v \<and> \<not> py_eq v alts \<longrightarrow>
       save_test J self name alts fs =
         (Inl (Exception ''test "%s" already exists with different alternatives'' name), fs)) \<and>
    (filter (\<lambda>d. subset_match d [(''t'', name)]) (log_records J fs (tests_path self)) = ex # others \<and>
     field ex ''a'' = Some v \<and> py_eq v alts \<longrightarrow>
       save_test J self name alts fs =
         (Inr (),
          fs(tests_path self \<mapsto>
               (case fs (tests_path self) of None \<Rightarrow> [] | Some content \<Rightarrow> content) @
               dumps J (JObj [(''t'', name), (''a'', alts)]) @ [CHR 0x0A]))) \<and>
    (filter (\<lambda>d. subset_match d [(''t'', name)]) (log_records J fs (tests_path self)) = ex # others \<and>
     field ex ''a'' = None \<longrightarrow>
       save_test J self name alts fs = (Inl KeyError, fs))\<close>
proof -
  have look: "find_line J fs (tests_path self) [(''t'', name)] =
      Inr (case filter (\<lambda>d. subset_match d [(''t'', name)]) (log_records J fs (tests_path self)) of
             [] \<Rightarrow> None | d # ds \<Rightarrow> Some d)"
    using assms by (intro find_line_objects) simp
  have obj: "is_obj ex"
    if "filter (\<lambda>d. subset_match d [(''t'', name)]) (log_records J fs (tests_path self)) = ex # others"
  proof -
    from that have "ex \<in> set (filter (\<lambda>d. subset_match d [(''t'', name)]) (log_records J fs (tests_path self)))"
      by simp
    then have "subset_match ex [(''t'', name)]" by simp
    then show ?thesis by (rule subset_match_truthy)
  qed
  show ?thesis
    using obj by (auto simp: save_test_cases look append_line_eq)
qed

text \<open>The theorem at a log that defines test \<^verbatim>\<open>y\<close> first, then test \<^verbatim>\<open>x\<close> twice, with
  different alternatives, then test \<^verbatim>\<open>w\<close> without alternatives: for \<^verbatim>\<open>x\<close> the first of its
  two definitions decides, not the definition of \<^verbatim>\<open>y\<close> before it nor the second one of
  \<^verbatim>\<open>x\<close>.  Then the scenario of the specification: \<^verbatim>\<open>save_test("x", ["a", "b"])\<close> in an empty
  directory, followed by \<^verbatim>\<open>save_test("x", ["a", "c"])\<close>.\<close>

theorem save_test_conflict_or_append_witness:
  \<open>object_log python_json definitions_fs (tests_path example_storage) \<and>
   log_records python_json definitions_fs (tests_path example_storage) =
     [JObj [(''a'', JList [JStr ''a'', JStr ''c'']), (''t'', JStr ''y'')],
      JObj [(''a'', JList [JStr ''a'', JStr ''b'']), (''t'', JStr ''x'')],
      JObj [(''a'', JList [JStr ''a'', JStr ''c'']), (''t'', JStr ''x'')],
      JObj [(''t'', JStr ''w'')]] \<and>
   filter (\<lambda>d. subset_match d [(''t'', JStr ''x'')])
       (log_records python_json definitions_fs (tests_path example_storage)) =
     [JObj [(''a'', JList [JStr ''a'', JStr ''b'']), (''t'', JStr ''x'')],
      JObj [(''a'', JList [JStr ''a'', JStr ''c'']), (''t'', JStr ''x'')]] \<and>
   field (JObj [(''a'', JList [JStr ''a'', JStr ''b'']), (''t'', JStr ''x'')]) ''a'' =
     Some (JList [JStr ''a'', JStr ''b'']) \<and>
   \<not> py_eq (JList [JStr ''a'', JStr ''b'']) (JList [JStr ''a'', JStr ''c'']) \<and>
   save_test python_json example_storage (JStr ''x'') (JList [JStr ''a'', JStr ''c'']) definitions_fs =
     (Inl (Exception ''test "%s" already exists with different alternatives'' (JStr ''x'')), definitions_fs) \<and>
   py_eq (JList [JStr ''a'', JStr ''b'']) (JList [JStr ''a'', JStr ''b'']) \<and>
   save_test python_json example_storage (JStr ''x'') (JList [JStr ''a'', JStr ''b'']) definitions_fs =
     (Inr (), definitions_fs(''/var/dabble/tests.dabble'' \<mapsto>
        ''{"t":"y","a":["a","c"]}\<newline>{"t":"x","a":["a","b"]}\<newline>{"t":"x","a":["a","c"]}\<newline>{"t":"w"}\<newline>{"t":"x","a":["a","b"]}\<newline>'')) \<and>
   filter (\<lambda>d. subset_match d [(''t'', JStr ''z'')])
       (log_records python_json definitions_fs (tests_path example_storage)) = [] \<and>
   save_test python_json example_storage (JStr ''z'') (JList [JStr ''a'', JStr ''b'']) definitions_fs =
     (Inr (), definitions_fs(''/var/dabble/tests.dabble'' \<mapsto>
        ''{"t":"y","a":["a","c"]}\<newline>{"t":"x","a":["a","b"]}\<newline>{"t":"x","a":["a","c"]}\<newline>{"t":"w"}\<newline>{"t":"z","a":["a","b"]}\<newline>'')) \<and>
   filter (\<lambda>d. subset_match d [(''t'', JStr ''w'')])
       (log_records python_json definitions_fs (tests_path example_storage)) = [JObj [(''t'', JStr ''w'')]] \<and>
   field (JObj [(''t'', JStr ''w'')]) ''a'' = None \<and>
   save_test python_json example_storage (JStr ''w'') (JList [JStr ''a'', JStr ''b'']) definitions_fs =
     (Inl KeyError, definitions_fs) \<and>
   object_log python_json Map.empty (tests_path example_storage) \<and>
   filter (\<lambda>d. subset_match d [(''t'', JStr ''x'')])
       (log_records python_json Map.empty (tests_path example_storage)) = [] \<and>
   save_test python_json example_storage (JStr ''x'') (JList [JStr ''a'', JStr ''b'']) Map.empty =
     (Inr (), registered_fs) \<and>
   object_log python_json registered_fs (tests_path example_storage) \<and>
   filter (\<lambda>d. subset_match d [(''t'', JStr ''x'')])
       (log_records python_json registered_fs (tests_path example_storage)) =
     [JObj [(''a'', JList [JStr ''a'', JStr ''b'']), (''t'', JStr ''x'')]] \<and>
   save_test python_json example_storage (JStr ''x'') (JList [JStr ''a'', JStr ''c'']) registered_fs =
     (Inl (Exception ''test "%s" already exists with different alternatives'' (JStr ''x'')), registered_fs)\<close>
proof -
  let ?ab = "JList [JStr ''a'', JStr ''b'']"
  let ?ac = "JList [JStr ''a'', JStr ''c'']"
  let ?xab = "JObj [(''a'', ?ab), (''t'', JStr ''x'')]"
  let ?xac = "JObj [(''a'', ?ac), (''t'', JStr ''x'')]"
  let ?w = "JObj [(''t'', JStr ''w'')]"
  let ?path = "tests_path example_storage"
  have o: "object_log python_json definitions_fs ?path" by code_simp
  have recs: "log_records python_json definitions_fs ?path =
     [JObj [(''a'', ?ac), (''t'', JStr ''y'')], ?xab, ?xac, ?w]"
    by code_simp
  have fx: "filter (\<lambda>d. subset_match d [(''t'', JStr ''x'')]) (log_records python_json definitions_fs ?path) =
     [?xab, ?xac]"
    by code_simp
  have fz: "filter (\<lambda>d. subset_match d [(''t'', JStr ''z'')]) (log_records python_json definitions_fs ?path) = []"
    by code_simp
  have fw: "filter (\<lambda>d. subset_match d [(''t'', JStr ''w'')]) (log_records python_json definitions_fs ?path) = [?w]"
    by code_simp
  have fa: "field ?xab ''a'' = Some ?ab" and fn: "field ?w ''a'' = None" by (simp_all add: field_def)
  have ne: "\<not> py_eq ?ab ?ac" and eq: "py_eq ?ab ?ab" by simp_all
  have old: \<open>definitions_fs ?path =
      Some ''{"t":"y","a":["a","c"]}\<newline>{"t":"x","a":["a","b"]}\<newline>{"t":"x","a":["a","c"]}\<newline>{"t":"w"}\<newline>''\<close>
    by (simp add: definitions_fs_def example_paths)
  have dx: \<open>dumps python_json (JObj [(''t'', JStr ''x''), (''a'', ?ab)]) = ''{"t":"x","a":["a","b"]}''\<close>
    by code_simp
  have dz: \<open>dumps python_json (JObj [(''t'', JStr ''z''), (''a'', ?ab)]) = ''{"t":"z","a":["a","b"]}''\<close>
    by code_simp
  have o0: "object_log python_json Map.empty ?path"
    by (simp add: object_log_def log_records_def)
  have f0: "filter (\<lambda>d. subset_match d [(''t'', JStr ''x'')]) (log_records python_json Map.empty ?path) = []"
    by (simp add: log_records_def)
  have o1: "object_log python_json registered_fs ?path" by code_simp
  have f1: "filter (\<lambda>d. subset_match d [(''t'', JStr ''x'')]) (log_records python_json registered_fs ?path) =
     [?xab]"
    by code_simp
  note t1 = save_test_conflict_or_append[OF o, where name = "JStr ''x''" and alts = ?ac and ex = ?xab
      and others = "[?xac]" and v = ?ab]
  note t2 = save_test_conflict_or_append[OF o, where name = "JStr ''x''" and alts = ?ab and ex = ?xab
      and others = "[?xac]" and v = ?ab]
  note t3 = save_test_conflict_or_append[OF o, where name = "JStr ''z''" and alts = ?ab and ex = ?xab
      and others = "[?xac]" and v = ?ab]
  note t4 = save_test_conflict_or_append[OF o, where name = "JStr ''w''" and alts = ?ab and ex = ?w
      and others = "[]" and v = ?ab]
  note t5 = save_test_conflict_or_append[OF o0, where name = "JStr ''x''" and alts = ?ab and ex = ?xab
      and others = "[]" and v = ?ab]
  note t6 = save_test_conflict_or_append[OF o1, where name = "JStr ''x''" and alts = ?ac and ex = ?xab
      and others = "[]" and v = ?ab]
  from t1 fx fa ne
  have c1: \<open>save_test python_json example_storage (JStr ''x'') ?ac definitions_fs =
     (Inl (Exception ''test "%s" already exists with different alternatives'' (JStr ''x'')), definitions_fs)\<close>
    by blast
  from t2 fx fa eq
  have c2: \<open>save_test python_json example_storage (JStr ''x'') ?ab definitions_fs =
     (Inr (), definitions_fs(''/var/dabble/tests.dabble'' \<mapsto>
        ''{"t":"y","a":["a","c"]}\<newline>{"t":"x","a":["a","b"]}\<newline>{"t":"x","a":["a","c"]}\<newline>{"t":"w"}\<newline>{"t":"x","a":["a","b"]}\<newline>''))\<close>
    by (simp add: old dx) (simp add: example_paths)
  from t3 fz
  have c3: \<open>save_test python_json example_storage (JStr ''z'') ?ab definitions_fs =
     (Inr (), definitions_fs(''/var/dabble/tests.dabble'' \<mapsto>
        ''{"t":"y","a":["a","c"]}\<newline>{"t":"x","a":["a","b"]}\<newline>{"t":"x","a":["a","c"]}\<newline>{"t":"w"}\<newline>{"t":"z","a":["a","b"]}\<newline>''))\<close>
    by (simp add: old dz) (simp add: example_paths)
  from t4 fw fn
  have c4: "save_test python_json example_storage (JStr ''w'') ?ab definitions_fs = (Inl KeyError, definitions_fs)"
    by blast
  from t5 f0
  have c5: "save_test python_json example_storage (JStr ''x'') ?ab Map.empty = (Inr (), registered_fs)"
    by (simp add: dx) (simp add: example_paths registered_fs_def)
  from t6 f1 fa ne
  have c6: \<open>save_test python_json example_storage (JStr ''x'') ?ac registered_fs =
     (Inl (Exception ''test "%s" already exists with different alternatives'' (JStr ''x'')), registered_fs)\<close>
    by blast
  from o recs fx fa ne c1 eq c2 fz c3 fw fn c4 o0 f0 c5 o1 f1 c6 show ?thesis by blast
qed

text \<open>The claim as stated fails at a tests log whose only line is the JSON document \<^verbatim>\<open>5\<close>:
  no record of the log matches \<^verbatim>\<open>x\<close>, yet \<^verbatim>\<open>save_test\<close> raises \<^verbatim>\<open>TypeError\<close> instead of
  appending the definition.\<close>

theorem save_test_number_line_counterexample:
  \<open>number_logs_fs (tests_path example_storage) = Some ''5\<newline>'' \<and>
   log_records python_json number_logs_fs (tests_path example_storage) = [JInt 5] \<and>
   filter (\<lambda>d. subset_match d [(''t'', JStr ''x'')])
       (log_records python_json number_logs_fs (tests_path example_storage)) = [] \<and>
   save_test python_json example_storage (JStr ''x'') (JList [JStr ''a'', JStr ''b'']) number_logs_fs =
     (Inl TypeError, number_logs_fs)\<close>
proof -
  have \<open>number_logs_fs (tests_path example_storage) = Some ''5\<newline>''\<close>
    by (simp add: number_logs_fs_def example_paths)
  moreover have "log_records python_json number_logs_fs (tests_path example_storage) = [JInt 5]"
    by code_simp
  moreover have "filter (\<lambda>d. subset_match d [(''t'', JStr ''x'')])
       (log_records python_json number_logs_fs (tests_path example_storage)) = []"
    by code_simp
  moreover have "find_line python_json number_logs_fs (tests_path example_storage) [(''t'', JStr ''x'')] =
      Inl TypeError"
    by code_simp
  then have "save_test python_json example_storage (JStr ''x'') (JList [JStr ''a'', JStr ''b'']) number_logs_fs =
     (Inl TypeError, number_logs_fs)"
    by (simp add: save_test_cases)
  ultimately show ?thesis by blast
qed

subsection \<open>C3: assigning an alternative\<close>

text \<open>
  Claim C3, amended.  Let every line of the assignments log that parses be a dictionary,
  and take the records of the log that have fields \<^verbatim>\<open>i\<close> and \<^verbatim>\<open>t\<close> equal to \<open>ident\<close> and
  \<open>name\<close>, in file order.  If there is none, \<^verbatim>\<open>get_alternative\<close> returns \<^verbatim>\<open>None\<close> and
  \<^verbatim>\<open>set_alternative\<close> succeeds and appends its line.  If there are some, the first of them
  decides: \<^verbatim>\<open>get_alternative\<close> returns its alternative; \<^verbatim>\<open>set_alternative\<close> raises the
  conflict exception and leaves the file system as it was when that alternative differs
  from the given one, and succeeds and appends its line when the two are equal.  When the
  first record has no field \<^verbatim>\<open>n\<close>, \<^verbatim>\<open>get_alternative\<close> returns \<^verbatim>\<open>None\<close> and
  \<^verbatim>\<open>set_alternative\<close> raises \<^verbatim>\<open>KeyError\<close>.  The read leaves the file system as it was.
\<close>

theorem set_get_alternative:
  assumes "object_log J fs (alts_path self)"
  shows
   \<open>(filter (\<lambda>d. subset_match d [(''i'', ident), (''t'', name)]) (log_records J fs (alts_path self)) = [] \<longrightarrow>
       get_alternative J self ident name fs = (Inr JNull, fs) \<and>
       set_alternative J self ident name alt fs =
         (Inr (),
          fs(alts_path self \<mapsto>
               (case fs (alts_path self) of None \<Rightarrow> [] | Some content \<Rightarrow> content) @
               dumps J (JObj [(''i'', ident), (''t'', name), (''n'', alt)]) @ [CHR 0x0A]))) \<and>
    (filter (\<lambda>d. subset_match d [(''i'', ident), (''t'', name)]) (log_records J fs (alts_path self)) = ex # others \<and>
     field ex ''n'' = Some v \<longrightarrow>
       get_alternative J self ident name fs = (Inr v, fs)) \<and>
    (filter (\<lambda>d. subset_match d [(''i'', ident), (''t'', name)]) (log_records J fs (alts_path self)) = ex # others \<and>
     field ex ''n'' = Some v \<and> \<not> py_eq v alt \<longrightarrow>
       set_alternative J self ident name alt fs =
         (Inl (Exception ''different alternative already set for identity %s'' ident), fs)) \<and>
    (filter (\<lambda>d. subset_match d [(''i'', ident), (''t'', name)]) (log_records J fs (alts_path self)) = ex # others \<and>
     field ex ''n'' = Some v \<and> py_eq v alt \<longrightarrow>
       set_alternative J self ident name alt fs =
         (Inr (),
          fs(alts_path self \<mapsto>
               (case fs (alts_path self) of None \<Rightarrow> [] | Some content \<Rightarrow> content) @
               dumps J (JObj [(''i'', ident), (''t'', name), (''n'', alt)]) @ [CHR 0x0A]))) \<and>
    (filter (\<lambda>d. subset_match d [(''i'', ident), (''t'', name)]) (log_records J fs (alts_path self)) = ex # others \<and>
     field ex ''n'' = None \<longrightarrow>
       get_alternative J self ident name fs = (Inr JNull, fs) \<and>
       set_alternative J self ident name alt fs = (Inl KeyError, fs))\<close>
proof -
  let ?p = "[(''i'', ident), (''t'', name)]"
  have look: "find_line J fs (alts_path self) ?p =
      Inr (case filter (\<lambda>d. subset_match d ?p) (log_records J fs (alts_path self)) of
             [] \<Rightarrow> None | d # ds \<Rightarrow> Some d)"
    using assms by (intro find_line_objects) simp
  have obj: "is_obj ex"
    if "filter (\<lambda>d. subset_match d ?p) (log_records J fs (alts_path self)) = ex # others"
  proof -
    from that have "ex \<in> set (filter (\<lambda>d. subset_match d ?p) (log_records J fs (alts_path self)))"
      by simp
    then have "subset_match ex ?p" by simp
    then show ?thesis by (rule subset_match_truthy)
  qed
  show ?thesis
    using obj by (auto simp: set_alternative_cases get_alternative_cases look append_line_eq)
qed

text \<open>The theorem at a log that assigns \<^verbatim>\<open>u2\<close> in test \<^verbatim>\<open>x\<close> and \<^verbatim>\<open>u1\<close> in test \<^verbatim>\<open>y\<close> to
  alternative 1, then \<^verbatim>\<open>u1\<close> in test \<^verbatim>\<open>x\<close> to alternative 0 and after that to alternative
  1: for \<^verbatim>\<open>u1\<close> in \<^verbatim>\<open>x\<close> the alternative is 0, that of the first of the two records.  Then the
  scenario of the specification: \<^verbatim>\<open>set_alternative("u1", "x", 0)\<close> in an empty directory,
  followed by \<^verbatim>\<open>set_alternative("u1", "x", 1)\<close> and \<^verbatim>\<open>get_alternative("u1", "x")\<close>.\<close>

theorem set_get_alternative_witness:
  \<open>object_log python_json assignments_fs (alts_path example_storage) \<and>
   log_records python_json assignments_fs (alts_path example_storage) =
     [JObj [(''n'', JInt 1), (''t'', JStr ''x''), (''i'', JStr ''u2'')],
      JObj [(''n'', JInt 1), (''t'', JStr ''y''), (''i'', JStr ''u1'')],
      JObj [(''n'', JInt 0), (''t'', JStr ''x''), (''i'', JStr ''u1'')],
      JObj [(''n'', JInt 1), (''t'', JStr ''x''), (''i'', JStr ''u1'')],
      JObj [(''t'', JStr ''x''), (''i'', JStr ''u3'')]] \<and>
   filter (\<lambda>d. subset_match d [(''i'', JStr ''u1''), (''t'', JStr ''x'')])
       (log_records python_json assignments_fs (alts_path example_storage)) =
     [JObj [(''n'', JInt 0), (''t'', JStr ''x''), (''i'', JStr ''u1'')],
      JObj [(''n'', JInt 1), (''t'', JStr ''x''), (''i'', JStr ''u1'')]] \<and>
   field (JObj [(''n'', JInt 0), (''t'', JStr ''x''), (''i'', JStr ''u1'')]) ''n'' = Some (JInt 0) \<and>
   get_alternative python_json example_storage (JStr ''u1'') (JStr ''x'') assignments_fs =
     (Inr (JInt 0), assignments_fs) \<and>
   \<not> py_eq (JInt 0) (JInt 1) \<and>
   set_alternative python_json example_storage (JStr ''u1'') (JStr ''x'') (JInt 1) assignments_fs =
     (Inl (Exception ''different alternative already set for identity %s'' (JStr ''u1'')), assignments_fs) \<and>
   py_eq (JInt 0) (JInt 0) \<and>
   set_alternative python_json example_storage (JStr ''u1'') (JStr ''x'') (JInt 0) assignments_fs =
     (Inr (), assignments_fs(''/var/dabble/alts.dabble'' \<mapsto>
        ''{"i":"u2","t":"x","n":1}\<newline>{"i":"u1","t":"y","n":1}\<newline>{"i":"u1","t":"x","n":0}\<newline>{"i":"u1","t":"x","n":1}\<newline>{"i":"u3","t":"x"}\<newline>{"i":"u1","t":"x","n":0}\<newline>'')) \<and>
   filter (\<lambda>d. subset_match d [(''i'', JStr ''u4''), (''t'', JStr ''x'')])
       (log_records python_json assignments_fs (alts_path example_storage)) = [] \<and>
   get_alternative python_json example_storage (JStr ''u4'') (JStr ''x'') assignments_fs =
     (Inr JNull, assignments_fs) \<and>
   set_alternative python_json example_storage (JStr ''u4'') (JStr ''x'') (JInt 1) assignments_fs =
     (Inr (), assignments_fs(''/var/dabble/alts.dabble'' \<mapsto>
        ''{"i":"u2","t":"x","n":1}\<newline>{"i":"u1","t":"y","n":1}\<newline>{"i":"u1","t":"x","n":0}\<newline>{"i":"u1","t":"x","n":1}\<newline>{"i":"u3","t":"x"}\<newline>{"i":"u4","t":"x","n":1}\<newline>'')) \<and>
   filter (\<lambda>d. subset_match d [(''i'', JStr ''u3''), (''t'', JStr ''x'')])
       (log_records python_json assignments_fs (alts_path example_storage)) =
     [JObj [(''t'', JStr ''x''), (''i'', JStr ''u3'')]] \<and>
   field (JObj [(''t'', JStr ''x''), (''i'', JStr ''u3'')]) ''n'' = None \<and>
   get_alternative python_json example_storage (JStr ''u3'') (JStr ''x'') assignments_fs =
     (Inr JNull, assignments_fs) \<and>
   set_alternative python_json example_storage (JStr ''u3'') (JStr ''x'') (JInt 0) assignments_fs =
     (Inl KeyError, assignments_fs) \<and>
   object_log python_json Map.empty (alts_path example_storage) \<and>
   filter (\<lambda>d. subset_match d [(''i'', JStr ''u1''), (''t'', JStr ''x'')])
       (log_records python_json Map.empty (alts_path example_storage)) = [] \<and>
   set_alternative python_json example_storage (JStr ''u1'') (JStr ''x'') (JInt 0) Map.empty =
     (Inr (), assigned_fs) \<and>
   object_log python_json assigned_fs (alts_path example_storage) \<and>
   filter (\<lambda>d. subset_match d [(''i'', JStr ''u1''), (''t'', JStr ''x'')])
       (log_records python_json assigned_fs (alts_path example_storage)) =
     [JObj [(''n'', JInt 0), (''t'', JStr ''x''), (''i'', JStr ''u1'')]] \<and>
   set_alternative python_json example_storage (JStr ''u1'') (JStr ''x'') (JInt 1) assigned_fs =
     (Inl (Exception ''different alternative already set for identity %s'' (JStr ''u1'')), assigned_fs) \<and>
   get_alternative python_json example_storage (JStr ''u1'') (JStr ''x'') assigned_fs =
     (Inr (JInt 0), assigned_fs)\<close>
proof -
  let ?r3 = "JObj [(''n'', JInt 0), (''t'', JStr ''x''), (''i'', JStr ''u1'')]"
  let ?r4 = "JObj [(''n'', JInt 1), (''t'', JStr ''x''), (''i'', JStr ''u1'')]"
  let ?r5 = "JObj [(''t'', JStr ''x''), (''i'', JStr ''u3'')]"
  let ?path = "alts_path example_storage"
  have o: "object_log python_json assignments_fs ?path" by code_simp
  have recs: "log_records python_json assignments_fs ?path =
     [JObj [(''n'', JInt 1), (''t'', JStr ''x''), (''i'', JStr ''u2'')],
      JObj [(''n'', JInt 1), (''t'', JStr ''y''), (''i'', JStr ''u1'')], ?r3, ?r4, ?r5]"
    by code_simp
  have f1: "filter (\<lambda>d. subset_match d [(''i'', JStr ''u1''), (''t'', JStr ''x'')])
       (log_records python_json assignments_fs ?path) = [?r3, ?r4]"
    by code_simp
  have f4: "filter (\<lambda>d. subset_match d [(''i'', JStr ''u4''), (''t'', JStr ''x'')])
       (log_records python_json assignments_fs ?path) = []"
    by code_simp
  have f3: "filter (\<lambda>d. subset_match d [(''i'', JStr ''u3''), (''t'', JStr ''x'')])
       (log_records python_json assignments_fs ?path) = [?r5]"
    by code_simp
  have fn: "field ?r3 ''n'' = Some (JInt 0)" and fnone: "field ?r5 ''n'' = None"
    by (simp_all add: field_def)
  have ne: "\<not> py_eq (JInt 0) (JInt 1)" and eq: "py_eq (JInt 0) (JInt 0)" by simp_all
  have old: \<open>assignments_fs ?path =
      Some ''{"i":"u2","t":"x","n":1}\<newline>{"i":"u1","t":"y","n":1}\<newline>{"i":"u1","t":"x","n":0}\<newline>{"i":"u1","t":"x","n":1}\<newline>{"i":"u3","t":"x"}\<newline>''\<close>
    by (simp add: assignments_fs_def example_paths)
  have d1: \<open>dumps python_json (JObj [(''i'', JStr ''u1''), (''t'', JStr ''x''), (''n'', JInt 0)]) =
      ''{"i":"u1","t":"x","n":0}''\<close>
    by code_simp
  have d4: \<open>dumps python_json (JObj [(''i'', JStr ''u4''), (''t'', JStr ''x''), (''n'', JInt 1)]) =
      ''{"i":"u4","t":"x","n":1}''\<close>
    by code_simp
  have o0: "object_log python_json Map.empty ?path"
    by (simp add: object_log_def log_records_def)
  have f0: "filter (\<lambda>d. subset_match d [(''i'', JStr ''u1''), (''t'', JStr ''x'')])
       (log_records python_json Map.empty ?path) = []"
    by (simp add: log_records_def)
  have oa: "object_log python_json assigned_fs ?path" by code_simp
  have fa: "filter (\<lambda>d. subset_match d [(''i'', JStr ''u1''), (''t'', JStr ''x'')])
       (log_records python_json assigned_fs ?path) = [?r3]"
    by code_simp
  note t1 = set_get_alternative[OF o, where ident = "JStr ''u1''" and name = "JStr ''x''" and alt = "JInt 1"
      and ex = ?r3 and others = "[?r4]" and v = "JInt 0"]
  note t2 = set_get_alternative[OF o, where ident = "JStr ''u1''" and name = "JStr ''x''" and alt = "JInt 0"
      and ex = ?r3 and others = "[?r4]" and v = "JInt 0"]
  note t3 = set_get_alternative[OF o, where ident = "JStr ''u4''" and name = "JStr ''x''" and alt = "JInt 1"
      and ex = ?r3 and others = "[]" and v = "JInt 0"]
  note t4 = set_get_alternative[OF o, where ident = "JStr ''u3''" and name = "JStr ''x''" and alt = "JInt 0"
      and ex = ?r5 and others = "[]" and v = "JInt 0"]
  note t5 = set_get_alternative[OF o0, where ident = "JStr ''u1''" and name = "JStr ''x''" and alt = "JInt 0"
      and ex = ?r3 and others = "[]" and v = "JInt 0"]
  note t6 = set_get_alternative[OF oa, where ident = "JStr ''u1''" and name = "JStr ''x''" and alt = "JInt 1"
      and ex = ?r3 and others = "[]" and v = "JInt 0"]
  from t1 f1 fn
  have g1: "get_alternative python_json example_storage (JStr ''u1'') (JStr ''x'') assignments_fs =
     (Inr (JInt 0), assignments_fs)"
    by blast
  from t1 f1 fn ne
  have c1: "set_alternative python_json example_storage (JStr ''u1'') (JStr ''x'') (JInt 1) assignments_fs =
     (Inl (Exception ''different alternative already set for identity %s'' (JStr ''u1'')), assignments_fs)"
    by blast
  from t2 f1 fn eq
  have c2: \<open>set_alternative python_json example_storage (JStr ''u1'') (JStr ''x'') (JInt 0) assignments_fs =
     (Inr (), assignments_fs(''/var/dabble/alts.dabble'' \<mapsto>
        ''{"i":"u2","t":"x","n":1}\<newline>{"i":"u1","t":"y","n":1}\<newline>{"i":"u1","t":"x","n":0}\<newline>{"i":"u1","t":"x","n":1}\<newline>{"i":"u3","t":"x"}\<newline>{"i":"u1","t":"x","n":0}\<newline>''))\<close>
    by (simp add: old d1) (simp add: example_paths)
  from t3 f4
  have g4: "get_alternative python_json example_storage (JStr ''u4'') (JStr ''x'') assignments_fs =
     (Inr JNull, assignments_fs)"
    by blast
  from t3 f4
  have c4: \<open>set_alternative python_json example_storage (JStr ''u4'') (JStr ''x'') (JInt 1) assignments_fs =
     (Inr (), assignments_fs(''/var/dabble/alts.dabble'' \<mapsto>
        ''{"i":"u2","t":"x","n":1}\<newline>{"i":"u1","t":"y","n":1}\<newline>{"i":"u1","t":"x","n":0}\<newline>{"i":"u1","t":"x","n":1}\<newline>{"i":"u3","t":"x"}\<newline>{"i":"u4","t":"x","n":1}\<newline>''))\<close>
    by (simp add: old d4) (simp add: example_paths)
  from t4 f3 fnone
  have g3: "get_alternative python_json example_storage (JStr ''u3'') (JStr ''x'') assignments_fs =
     (Inr JNull, assignments_fs)"
    and c3: "set_alternative python_json example_storage (JStr ''u3'') (JStr ''x'') (JInt 0) assignments_fs =
     (Inl KeyError, assignments_fs)"
    by blast+
  from t5 f0
  have c5: "set_alternative python_json example_storage (JStr ''u1'') (JStr ''x'') (JInt 0) Map.empty =
     (Inr (), assigned_fs)"
    by (simp add: d1) (simp add: example_paths assigned_fs_def)
  from t6 fa fn ne
  have c6: "set_alternative python_json example_storage (JStr ''u1'') (JStr ''x'') (JInt 1) assigned_fs =
     (Inl (Exception ''different alternative already set for identity %s'' (JStr ''u1'')), assigned_fs)"
    by blast
  from t6 fa fn
  have g6: "get_alternative python_json example_storage (JStr ''u1'') (JStr ''x'') assigned_fs =
     (Inr (JInt 0), assigned_fs)"
    by blast
  from o recs f1 fn g1 ne c1 eq c2 f4 g4 c4 f3 fnone g3 c3 o0 f0 c5 oa fa c6 g6 show ?thesis by blast
qed

text \<open>The claim as stated fails at an assignments log whose only line is the JSON document
  \<^verbatim>\<open>5\<close>: no record of the log matches, yet \<^verbatim>\<open>get_alternative\<close> raises \<^verbatim>\<open>TypeError\<close> instead
  of returning \<^verbatim>\<open>None\<close>, and \<^verbatim>\<open>set_alternative\<close> raises it instead of appending.\<close>

theorem alternative_number_line_counterexample:
  \<open>number_logs_fs (alts_path example_storage) = Some ''5\<newline>'' \<and>
   log_records python_json number_logs_fs (alts_path example_storage) = [JInt 5] \<and>
   filter (\<lambda>d. subset_match d [(''i'', JStr ''u1''), (''t'', JStr ''x'')])
       (log_records python_json number_logs_fs (alts_path example_storage)) = [] \<and>
   get_alternative python_json example_storage (JStr ''u1'') (JStr ''x'') number_logs_fs =
     (Inl TypeError, number_logs_fs) \<and>
   set_alternative python_json example_storage (JStr ''u1'') (JStr ''x'') (JInt 0) number_logs_fs =
     (Inl TypeError, number_logs_fs)\<close>
proof -
  have \<open>number_logs_fs (alts_path example_storage) = Some ''5\<newline>''\<close>
    by (simp add: number_logs_fs_def example_paths)
  moreover have "log_records python_json number_logs_fs (alts_path example_storage) = [JInt 5]"
    by code_simp
  moreover have "filter (\<lambda>d. subset_match d [(''i'', JStr ''u1''), (''t'', JStr ''x'')])
       (log_records python_json number_logs_fs (alts_path example_storage)) = []"
    by code_simp
  moreover have l: "find_line python_json number_logs_fs (alts_path example_storage)
      [(''i'', JStr ''u1''), (''t'', JStr ''x'')] = Inl TypeError"
    by code_simp
  then have "get_alternative python_json example_storage (JStr ''u1'') (JStr ''x'') number_logs_fs =
     (Inl TypeError, number_logs_fs)"
    by (simp add: get_alternative_cases)
  moreover from l have "set_alternative python_json example_storage (JStr ''u1'') (JStr ''x'') (JInt 0) number_logs_fs =
     (Inl TypeError, number_logs_fs)"
    by (simp add: set_alternative_cases)
  ultimately show ?thesis by blast
qed

subsection \<open>C4: completion\<close>

text \<open>
  Claim C4, amended.  Let every line of the results log that parses be a dictionary.  Then
  \<^verbatim>\<open>is_completed\<close> returns true if and only if some record of the log, at any position,
  has fields \<^verbatim>\<open>i\<close>, \<^verbatim>\<open>t\<close>, \<^verbatim>\<open>n\<close> equal to the identity, the test name and the alternative,
  and a field \<^verbatim>\<open>c\<close> equal to \<^verbatim>\<open>True\<close>.  The answer is the same for every such log with the
  same set of records, so it depends neither on the position of the record nor on how often
  it occurs.  The file system is left as it was.
\<close>

theorem is_completed_exists:
  assumes "object_log J fs (results_path self)"
  shows "is_completed J self ident name alt fs =
           (Inr (\<exists>e \<in> set (log_records J fs (results_path self)).
                   subset_match e [(''i'', ident), (''t'', name), (''n'', alt), (''c'', JBool True)]),
            fs) \<and>
         (\<forall>fs'. object_log J fs' (results_path self) \<and>
                set (log_records J fs' (results_path self)) = set (log_records J fs (results_path self)) \<longrightarrow>
                fst (is_completed J self ident name alt fs') = fst (is_completed J self ident name alt fs))"
proof -
  have *: "is_completed J self ident name alt f =
           (Inr (\<exists>e \<in> set (log_records J f (results_path self)).
                   subset_match e [(''i'', ident), (''t'', name), (''n'', alt), (''c'', JBool True)]),
            f)" if "object_log J f (results_path self)" for f
  proof -
    let ?p = "[(''i'', ident), (''t'', name), (''n'', alt), (''c'', JBool True)]"
    from that have "find_line J f (results_path self) ?p =
      Inr (case filter (\<lambda>d. subset_match d ?p) (log_records J f (results_path self)) of
             [] \<Rightarrow> None | d # ds \<Rightarrow> Some d)"
      by (intro find_line_objects) simp
    then show ?thesis
      by (auto simp: is_completed_def filter_empty_conv split: list.splits)
         (metis filter_empty_conv list.distinct(1))
  qed
  from *[OF assms] show ?thesis by (auto simp: *)
qed

text \<open>The theorem at the scenario of the specification: of the two events of \<^verbatim>\<open>u1\<close> the
  second, not the first, carries the flag.\<close>

theorem is_completed_exists_witness:
  "object_log python_json shown_fs (results_path example_storage) \<and>
   log_records python_json shown_fs (results_path example_storage) =
     [JObj [(''c'', JBool False), (''a'', JStr ''shown''), (''n'', JInt 0), (''t'', JStr ''x''), (''i'', JStr ''u1'')],
      JObj [(''c'', JBool True), (''a'', JStr ''shown''), (''n'', JInt 0), (''t'', JStr ''x''), (''i'', JStr ''u1'')]] \<and>
   is_completed python_json example_storage (JStr ''u1'') (JStr ''x'') (JInt 0) shown_fs = (Inr True, shown_fs) \<and>
   is_completed python_json example_storage (JStr ''u1'') (JStr ''x'') (JInt 1) shown_fs = (Inr False, shown_fs)"
proof -
  have recs: "log_records python_json shown_fs (results_path example_storage) =
     [JObj [(''c'', JBool False), (''a'', JStr ''shown''), (''n'', JInt 0), (''t'', JStr ''x''), (''i'', JStr ''u1'')],
      JObj [(''c'', JBool True), (''a'', JStr ''shown''), (''n'', JInt 0), (''t'', JStr ''x''), (''i'', JStr ''u1'')]]"
    by code_simp
  have obj: "object_log python_json shown_fs (results_path example_storage)"
    by (simp add: object_log_def recs is_obj_def)
  from is_completed_exists[OF obj, of "JStr ''u1''" "JStr ''x''" "JInt 0"]
  have "is_completed python_json example_storage (JStr ''u1'') (JStr ''x'') (JInt 0) shown_fs = (Inr True, shown_fs)"
    by (simp add: recs subset_match_def field_def)
  moreover
  from is_completed_exists[OF obj, of "JStr ''u1''" "JStr ''x''" "JInt 1"]
  have "is_completed python_json example_storage (JStr ''u1'') (JStr ''x'') (JInt 1) shown_fs = (Inr False, shown_fs)"
    by (simp add: recs subset_match_def field_def)
  ultimately show ?thesis using obj recs by blast
qed

text \<open>The claim as stated fails at a results log whose first line is the JSON document
  \<^verbatim>\<open>5\<close>: the second line is a completed event of \<^verbatim>\<open>u1\<close>, yet the call raises \<^verbatim>\<open>TypeError\<close>
  instead of returning true.\<close>

theorem is_completed_number_line_counterexample:
  "log_records python_json number_line_fs (results_path example_storage) =
     [JInt 5,
      JObj [(''c'', JBool True), (''a'', JStr ''shown''), (''n'', JInt 0), (''t'', JStr ''x''), (''i'', JStr ''u1'')]] \<and>
   subset_match
     (JObj [(''c'', JBool True), (''a'', JStr ''shown''), (''n'', JInt 0), (''t'', JStr ''x''), (''i'', JStr ''u1'')])
     [(''i'', JStr ''u1''), (''t'', JStr ''x''), (''n'', JInt 0), (''c'', JBool True)] \<and>
   is_completed python_json example_storage (JStr ''u1'') (JStr ''x'') (JInt 0) number_line_fs =
     (Inl TypeError, number_line_fs)"
proof -
  have "log_records python_json number_line_fs (results_path example_storage) =
     [JInt 5,
      JObj [(''c'', JBool True), (''a'', JStr ''shown''), (''n'', JInt 0), (''t'', JStr ''x''), (''i'', JStr ''u1'')]]"
    by code_simp
  moreover have "subset_match
     (JObj [(''c'', JBool True), (''a'', JStr ''shown''), (''n'', JInt 0), (''t'', JStr ''x''), (''i'', JStr ''u1'')])
     [(''i'', JStr ''u1''), (''t'', JStr ''x''), (''n'', JInt 0), (''c'', JBool True)]"
    by (simp add: subset_match_def field_def)
  moreover have "find_line python_json number_line_fs (results_path example_storage)
     [(''i'', JStr ''u1''), (''t'', JStr ''x''), (''n'', JInt 0), (''c'', JBool True)] = Inl TypeError"
    by code_simp
  then have "is_completed python_json example_storage (JStr ''u1'') (JStr ''x'') (JInt 0) number_line_fs =
     (Inl TypeError, number_line_fs)"
    by (simp add: is_completed_def)
  ultimately show ?thesis by blast
qed

subsection \<open>C5: the report of an unknown test\<close>

text \<open>
  Claim C5, amended.  Let every line of the tests log that parses be a dictionary.  If no
  record of the log has a field \<^verbatim>\<open>t\<close> equal to \<open>name\<close>, \<^verbatim>\<open>ab_report\<close> raises the exception
  with the message \<^verbatim>\<open>unknown test "name"\<close> and leaves the file system as it was.  If some
  record has, \<^verbatim>\<open>ab_report\<close> raises neither this exception nor any other that the storage
  class constructs, and leaves the file system as it was.  The exception differs from both
  conflict exceptions, whatever their arguments: all three are instances of the class
  \<^verbatim>\<open>Exception\<close>, told apart by their messages.
\<close>

theorem ab_report_unknown_test:
  assumes "object_log J fs (tests_path self)"
  shows
   \<open>(filter (\<lambda>d. subset_match d [(''t'', name)]) (log_records J fs (tests_path self)) = [] \<longrightarrow>
       ab_report J self name a b fs = (Inl (Exception ''unknown test "%s"'' name), fs)) \<and>
    (filter (\<lambda>d. subset_match d [(''t'', name)]) (log_records J fs (tests_path self)) \<noteq> [] \<longrightarrow>
       fst (ab_report J self name a b fs) \<noteq> Inl (Exception msg arg) \<and>
       snd (ab_report J self name a b fs) = fs) \<and>
    Exception ''unknown test "%s"'' name \<noteq>
      Exception ''test "%s" already exists with different alternatives'' n1 \<and>
    Exception ''unknown test "%s"'' name \<noteq>
      Exception ''different alternative already set for identity %s'' n2\<close>
proof -
  have look: "find_line J fs (tests_path self) [(''t'', name)] =
      Inr (case filter (\<lambda>d. subset_match d [(''t'', name)]) (log_records J fs (tests_path self)) of
             [] \<Rightarrow> None | d # ds \<Rightarrow> Some d)"
    using assms by (intro find_line_objects) simp
  have none: \<open>ab_report J self name a b fs = (Inl (Exception ''unknown test "%s"'' name), fs)\<close>
    if "filter (\<lambda>d. subset_match d [(''t'', name)]) (log_records J fs (tests_path self)) = []"
    using that by (simp add: ab_report_def look)
  have some: "fst (ab_report J self name a b fs) \<noteq> Inl (Exception msg arg)"
    if "filter (\<lambda>d. subset_match d [(''t'', name)]) (log_records J fs (tests_path self)) \<noteq> []"
  proof -
    from that obtain test others where
      "filter (\<lambda>d. subset_match d [(''t'', name)]) (log_records J fs (tests_path self)) = test # others"
      by (cases "filter (\<lambda>d. subset_match d [(''t'', name)]) (log_records J fs (tests_path self))") auto
    then have "find_line J fs (tests_path self) [(''t'', name)] = Inr (Some test)"
      by (simp add: look)
    then show ?thesis by (rule ab_report_defined_error)
  qed
  from none some ab_report_frame[of J self name a b fs] show ?thesis by simp
qed

text \<open>The theorem at the log of four definitions, for a test that it does not define and
  for test \<^verbatim>\<open>x\<close>, and at a directory without a tests log.\<close>

theorem ab_report_unknown_test_witness:
  \<open>object_log python_json definitions_fs (tests_path example_storage) \<and>
   filter (\<lambda>d. subset_match d [(''t'', JStr ''nosuch'')])
       (log_records python_json definitions_fs (tests_path example_storage)) = [] \<and>
   ab_report python_json example_storage (JStr ''nosuch'') (JStr ''a'') (JStr ''b'') definitions_fs =
     (Inl (Exception ''unknown test "%s"'' (JStr ''nosuch'')), definitions_fs) \<and>
   filter (\<lambda>d. subset_match d [(''t'', JStr ''x'')])
       (log_records python_json definitions_fs (tests_path example_storage)) =
     [JObj [(''a'', JList [JStr ''a'', JStr ''b'']), (''t'', JStr ''x'')],
      JObj [(''a'', JList [JStr ''a'', JStr ''c'']), (''t'', JStr ''x'')]] \<and>
   fst (ab_report python_json example_storage (JStr ''x'') (JStr ''a'') (JStr ''b'') definitions_fs) \<noteq>
     Inl (Exception ''unknown test "%s"'' (JStr ''x'')) \<and>
   snd (ab_report python_json example_storage (JStr ''x'') (JStr ''a'') (JStr ''b'') definitions_fs) =
     definitions_fs \<and>
   fst (ab_report python_json example_storage (JStr ''x'') (JStr ''a'') (JStr ''b'') definitions_fs) =
     Inr \<lparr> test_name = JStr ''x'', alternatives = JList [JStr ''a'', JStr ''b''],
           results = [\<lparr> attempted = 0, completed = 0 \<rparr>, \<lparr> attempted = 0, completed = 0 \<rparr>] \<rparr> \<and>
   object_log python_json Map.empty (tests_path example_storage) \<and>
   filter (\<lambda>d. subset_match d [(''t'', JStr ''nosuch'')])
       (log_records python_json Map.empty (tests_path example_storage)) = [] \<and>
   ab_report python_json example_storage (JStr ''nosuch'') (JStr ''a'') (JStr ''b'') Map.empty =
     (Inl (Exception ''unknown test "%s"'' (JStr ''nosuch'')), Map.empty)\<close>
proof -
  let ?path = "tests_path example_storage"
  have o: "object_log python_json definitions_fs ?path" by code_simp
  have fz: "filter (\<lambda>d. subset_match d [(''t'', JStr ''nosuch'')])
       (log_records python_json definitions_fs ?path) = []"
    by code_simp
  have fx: "filter (\<lambda>d. subset_match d [(''t'', JStr ''x'')]) (log_records python_json definitions_fs ?path) =
     [JObj [(''a'', JList [JStr ''a'', JStr ''b'']), (''t'', JStr ''x'')],
      JObj [(''a'', JList [JStr ''a'', JStr ''c'']), (''t'', JStr ''x'')]]"
    by code_simp
  have rep: "fst (ab_report python_json example_storage (JStr ''x'') (JStr ''a'') (JStr ''b'') definitions_fs) =
     Inr \<lparr> test_name = JStr ''x'', alternatives = JList [JStr ''a'', JStr ''b''],
           results = [\<lparr> attempted = 0, completed = 0 \<rparr>, \<lparr> attempted = 0, completed = 0 \<rparr>] \<rparr>"
    by code_simp
  have o0: "object_log python_json Map.empty ?path"
    by (simp add: object_log_def log_records_def)
  have f0: "filter (\<lambda>d. subset_match d [(''t'', JStr ''nosuch'')])
       (log_records python_json Map.empty ?path) = []"
    by (simp add: log_records_def)
  note t1 = ab_report_unknown_test[OF o, where name = "JStr ''nosuch''" and a = "JStr ''a''" and b = "JStr ''b''"]
  note t2 = ab_report_unknown_test[OF o, where name = "JStr ''x''" and a = "JStr ''a''" and b = "JStr ''b''"
      and msg = \<open>''unknown test "%s"''\<close> and arg = "JStr ''x''"]
  note t3 = ab_report_unknown_test[OF o0, where name = "JStr ''nosuch''" and a = "JStr ''a''" and b = "JStr ''b''"]
  from t1 fz
  have c1: \<open>ab_report python_json example_storage (JStr ''nosuch'') (JStr ''a'') (JStr ''b'') definitions_fs =
     (Inl (Exception ''unknown test "%s"'' (JStr ''nosuch'')), definitions_fs)\<close>
    by blast
  from t2 fx
  have c2: \<open>fst (ab_report python_json example_storage (JStr ''x'') (JStr ''a'') (JStr ''b'') definitions_fs) \<noteq>
     Inl (Exception ''unknown test "%s"'' (JStr ''x''))\<close>
    and c3: "snd (ab_report python_json example_storage (JStr ''x'') (JStr ''a'') (JStr ''b'') definitions_fs) =
     definitions_fs"
    by simp_all
  from t3 f0
  have c4: \<open>ab_report python_json example_storage (JStr ''nosuch'') (JStr ''a'') (JStr ''b'') Map.empty =
     (Inl (Exception ''unknown test "%s"'' (JStr ''nosuch'')), Map.empty)\<close>
    by blast
  from o fz c1 fx c2 c3 rep o0 f0 c4 show ?thesis by blast
qed

text \<open>The claim as stated fails at a tests log whose only line is the JSON document \<^verbatim>\<open>5\<close>:
  the log holds no definition, yet \<^verbatim>\<open>ab_report\<close> raises \<^verbatim>\<open>TypeError\<close>, not the exception
  for an unknown test.\<close>

theorem ab_report_number_line_counterexample:
  \<open>number_logs_fs (tests_path example_storage) = Some ''5\<newline>'' \<and>
   log_records python_json number_logs_fs (tests_path example_storage) = [JInt 5] \<and>
   filter (\<lambda>d. subset_match d [(''t'', JStr ''nosuch'')])
       (log_records python_json number_logs_fs (tests_path example_storage)) = [] \<and>
   ab_report python_json example_storage (JStr ''nosuch'') (JStr ''a'') (JStr ''b'') number_logs_fs =
     (Inl TypeError, number_logs_fs) \<and>
   Inl TypeError \<noteq> (Inl (Exception ''unknown test "%s"'' (JStr ''nosuch'')) :: error + report)\<close>
proof -
  have \<open>number_logs_fs (tests_path example_storage) = Some ''5\<newline>''\<close>
    by (simp add: number_logs_fs_def example_paths)
  moreover have "log_records python_json number_logs_fs (tests_path example_storage) = [JInt 5]"
    by code_simp
  moreover have "filter (\<lambda>d. subset_match d [(''t'', JStr ''nosuch'')])
       (log_records python_json number_logs_fs (tests_path example_storage)) = []"
    by code_simp
  moreover have "find_line python_json number_logs_fs (tests_path example_storage) [(''t'', JStr ''nosuch'')] =
      Inl TypeError"
    by code_simp
  then have "ab_report python_json example_storage (JStr ''nosuch'') (JStr ''a'') (JStr ''b'') number_logs_fs =
     (Inl TypeError, number_logs_fs)"
    by (simp add: ab_report_def)
  ultimately show ?thesis by simp
qed

subsection \<open>C6: scanning a log\<close>

text \<open>
  Claim C6, amended.  Let the pattern be empty, or let every line of the file that parses
  be a dictionary.  Then \<^verbatim>\<open>find_lines\<close> yields, in file order, exactly the records of the
  file in which every key of the pattern is present with an equal value, whatever other
  keys they have; lines that do not parse are no records and are skipped; a file that does
  not exist yields nothing; and \<^verbatim>\<open>find_line\<close> returns the first of these records, or
  \<^verbatim>\<open>None\<close> if there is none.
\<close>

theorem find_lines_object_log:
  assumes "pattern = [] \<or> object_log J fs filename"
  shows "find_lines J fs filename pattern =
           gen_of_list (filter (\<lambda>d. subset_match d pattern) (log_records J fs filename)) \<and>
         find_line J fs filename pattern =
           Inr (case filter (\<lambda>d. subset_match d pattern) (log_records J fs filename) of
                  [] \<Rightarrow> None
                | d # ds \<Rightarrow> Some d) \<and>
         (fs filename = None \<longrightarrow> find_lines J fs filename pattern = Stop)"
  using find_lines_objects[OF assms] find_line_objects[OF assms]
  by (simp add: find_lines_def)

text \<open>The theorem at a log of four lines the second of which is cut short: the two
  definitions of test \<^verbatim>\<open>x\<close> are yielded in file order, and the lookup returns the older
  one.\<close>

theorem find_lines_object_log_witness:
  "object_log python_json torn_fs ''/var/dabble/tests.dabble'' \<and>
   log_records python_json torn_fs ''/var/dabble/tests.dabble'' =
     [JObj [(''a'', JList [JStr ''a'']), (''t'', JStr ''x'')],
      JObj [(''a'', JList [JStr ''b'']), (''t'', JStr ''y'')],
      JObj [(''a'', JList [JStr ''c'']), (''t'', JStr ''x'')]] \<and>
   find_lines python_json torn_fs ''/var/dabble/tests.dabble'' [(''t'', JStr ''x'')] =
     Yield (JObj [(''a'', JList [JStr ''a'']), (''t'', JStr ''x'')])
       (Yield (JObj [(''a'', JList [JStr ''c'']), (''t'', JStr ''x'')]) Stop) \<and>
   find_line python_json torn_fs ''/var/dabble/tests.dabble'' [(''t'', JStr ''x'')] =
     Inr (Some (JObj [(''a'', JList [JStr ''a'']), (''t'', JStr ''x'')])) \<and>
   torn_fs ''/var/dabble/results.dabble'' = None \<and>
   find_lines python_json torn_fs ''/var/dabble/results.dabble'' [(''t'', JStr ''x'')] = Stop"
proof -
  have recs: "log_records python_json torn_fs ''/var/dabble/tests.dabble'' =
     [JObj [(''a'', JList [JStr ''a'']), (''t'', JStr ''x'')],
      JObj [(''a'', JList [JStr ''b'']), (''t'', JStr ''y'')],
      JObj [(''a'', JList [JStr ''c'']), (''t'', JStr ''x'')]]"
    by code_simp
  have obj: "object_log python_json torn_fs ''/var/dabble/tests.dabble''"
    by (simp add: object_log_def recs is_obj_def)
  have none: "torn_fs ''/var/dabble/results.dabble'' = None"
    by (simp add: torn_fs_def)
  then have obj': "object_log python_json torn_fs ''/var/dabble/results.dabble''"
    by (simp add: object_log_def log_records_def)
  from find_lines_object_log[of "[(''t'', JStr ''x'')]" python_json torn_fs "''/var/dabble/tests.dabble''"] obj
  have "find_lines python_json torn_fs ''/var/dabble/tests.dabble'' [(''t'', JStr ''x'')] =
     Yield (JObj [(''a'', JList [JStr ''a'']), (''t'', JStr ''x'')])
       (Yield (JObj [(''a'', JList [JStr ''c'']), (''t'', JStr ''x'')]) Stop)"
    and "find_line python_json torn_fs ''/var/dabble/tests.dabble'' [(''t'', JStr ''x'')] =
     Inr (Some (JObj [(''a'', JList [JStr ''a'']), (''t'', JStr ''x'')]))"
    by (simp_all add: recs subset_match_def field_def)
  moreover
  from find_lines_object_log[of "[(''t'', JStr ''x'')]" python_json torn_fs "''/var/dabble/results.dabble''"] obj' none
  have "find_lines python_json torn_fs ''/var/dabble/results.dabble'' [(''t'', JStr ''x'')] = Stop"
    by blast
  ultimately show ?thesis using obj recs none by blast
qed

text \<open>The claim as stated fails at a log whose first line is the JSON document \<^verbatim>\<open>5\<close>: the
  line parses, \<^verbatim>\<open>'t' in 5\<close> raises \<^verbatim>\<open>TypeError\<close> outside the \<^verbatim>\<open>try\<close>, and the matching
  record of the second line is never yielded.\<close>

theorem find_lines_number_line_counterexample:
  "log_records python_json number_first_fs ''/var/dabble/tests.dabble'' =
     [JInt 5, JObj [(''t'', JStr ''x'')]] \<and>
   subset_match (JObj [(''t'', JStr ''x'')]) [(''t'', JStr ''x'')] \<and>
   find_lines python_json number_first_fs ''/var/dabble/tests.dabble'' [(''t'', JStr ''x'')] =
     Raise TypeError \<and>
   find_line python_json number_first_fs ''/var/dabble/tests.dabble'' [(''t'', JStr ''x'')] =
     Inl TypeError"
proof -
  have "log_records python_json number_first_fs ''/var/dabble/tests.dabble'' =
     [JInt 5, JObj [(''t'', JStr ''x'')]]"
    by code_simp
  moreover have "subset_match (JObj [(''t'', JStr ''x'')]) [(''t'', JStr ''x'')]"
    by (simp add: subset_match_def field_def)
  moreover have "find_lines python_json number_first_fs ''/var/dabble/tests.dabble'' [(''t'', JStr ''x'')] =
     Raise TypeError"
    by code_simp
  moreover have "find_line python_json number_first_fs ''/var/dabble/tests.dabble'' [(''t'', JStr ''x'')] =
     Inl TypeError"
    by code_simp
  ultimately show ?thesis by blast
qed

subsection \<open>C7: appending and scanning\<close>

text \<open>
  Claim C7, amended.  Let the file be absent, empty, or end with a newline.  If the
  serialisation of the record holds no newline and is read back by \<^verbatim>\<open>json.loads\<close>, with
  its newline, as the record \<open>r\<close>, then after \<^verbatim>\<open>append_line\<close> the records of the file are
  those it had before, in the same order, followed by \<open>r\<close>, and a scan (\<^verbatim>\<open>find_lines\<close> with
  the empty pattern) yields exactly these records; the new text stands at the end of the
  file.  For the module \<open>python_json\<close> and a record whose strings are made of characters
  below 128, the record read back is \<open>reread\<close> of the record written, whose fields are equal
  to those given.
\<close>

theorem append_line_scan:
  assumes "complete_lines fs filename"
  shows "(CHR 0x0A \<notin> set (dumps J (JObj line)) \<and>
          loads J (dumps J (JObj line) @ [CHR 0x0A]) = Some r \<longrightarrow>
            log_records J (append_line J filename line fs) filename = log_records J fs filename @ [r] \<and>
            find_lines J (append_line J filename line fs) filename [] =
              gen_of_list (log_records J fs filename @ [r])) \<and>
         find_lines J fs filename [] = gen_of_list (log_records J fs filename) \<and>
         append_line J filename line fs filename =
           Some ((case fs filename of None \<Rightarrow> [] | Some content \<Rightarrow> content) @
                 dumps J (JObj line) @ [CHR 0x0A]) \<and>
         complete_lines (append_line J filename line fs) filename \<and>
         (json_ascii (JObj line) \<longrightarrow>
            log_records python_json (append_line python_json filename line fs) filename =
              log_records python_json fs filename @ [reread (JObj line)] \<and>
            py_eq (reread (JObj line)) (JObj line))"
proof -
  have scan: "find_lines J f filename [] = gen_of_list (log_records J f filename)" for f
    using find_lines_objects[of "[]" J f filename] by (simp add: subset_match_empty)
  have any: "log_records J (append_line J filename line fs) filename = log_records J fs filename @ [r]"
    if "CHR 0x0A \<notin> set (dumps J (JObj line))" "loads J (dumps J (JObj line) @ [CHR 0x0A]) = Some r"
    using assms that by (rule log_records_append_line)
  have py: "log_records python_json (append_line python_json filename line fs) filename =
              log_records python_json fs filename @ [reread (JObj line)]"
    if "json_ascii (JObj line)"
    using assms python_json_round_trips(3,2)[OF that] by (rule log_records_append_line)
  have ascii: "json_ascii (JObj line) \<longrightarrow>
      log_records python_json (append_line python_json filename line fs) filename =
        log_records python_json fs filename @ [reread (JObj line)] \<and>
      py_eq (reread (JObj line)) (JObj line)"
    using py py_eq_reread[of "JObj line"] by blast
  have text_end: "append_line J filename line fs filename =
      Some ((case fs filename of None \<Rightarrow> [] | Some content \<Rightarrow> content) @
            dumps J (JObj line) @ [CHR 0x0A])"
    by (simp add: append_line_eq)
  have lines: "complete_lines (append_line J filename line fs) filename"
    by (rule complete_lines_append_line)
  have first: "CHR 0x0A \<notin> set (dumps J (JObj line)) \<and>
      loads J (dumps J (JObj line) @ [CHR 0x0A]) = Some r \<longrightarrow>
        log_records J (append_line J filename line fs) filename = log_records J fs filename @ [r] \<and>
        find_lines J (append_line J filename line fs) filename [] =
          gen_of_list (log_records J fs filename @ [r])"
    using any scan[of "append_line J filename line fs"] by simp
  show ?thesis
    apply (rule conjI [OF first])
    apply (rule conjI [OF scan])
    apply (rule conjI [OF text_end])
    apply (rule conjI [OF lines])
    apply (rule ascii)
    done
qed

text \<open>The theorem at a log of one line, to which a second definition is appended.\<close>

theorem append_line_scan_witness:
  \<open>complete_lines registered_fs ''/var/dabble/tests.dabble'' \<and>
   dumps python_json (JObj [(''t'', JStr ''y''), (''a'', JList [JInt 1, JBool True, JNull])]) =
     ''{"t":"y","a":[1,true,null]}'' \<and>
   CHR 0x0A \<notin> set (dumps python_json (JObj [(''t'', JStr ''y''), (''a'', JList [JInt 1, JBool True, JNull])])) \<and>
   loads python_json (''{"t":"y","a":[1,true,null]}'' @ [CHR 0x0A]) =
     Some (JObj [(''a'', JList [JInt 1, JBool True, JNull]), (''t'', JStr ''y'')]) \<and>
   json_ascii (JObj [(''t'', JStr ''y''), (''a'', JList [JInt 1, JBool True, JNull])]) \<and>
   reread (JObj [(''t'', JStr ''y''), (''a'', JList [JInt 1, JBool True, JNull])]) =
     JObj [(''a'', JList [JInt 1, JBool True, JNull]), (''t'', JStr ''y'')] \<and>
   py_eq (JObj [(''a'', JList [JInt 1, JBool True, JNull]), (''t'', JStr ''y'')])
         (JObj [(''t'', JStr ''y''), (''a'', JList [JInt 1, JBool True, JNull])]) \<and>
   log_records python_json registered_fs ''/var/dabble/tests.dabble'' =
     [JObj [(''a'', JList [JStr ''a'', JStr ''b'']), (''t'', JStr ''x'')]] \<and>
   log_records python_json
     (append_line python_json ''/var/dabble/tests.dabble''
        [(''t'', JStr ''y''), (''a'', JList [JInt 1, JBool True, JNull])] registered_fs)
     ''/var/dabble/tests.dabble'' =
     [JObj [(''a'', JList [JStr ''a'', JStr ''b'']), (''t'', JStr ''x'')],
      JObj [(''a'', JList [JInt 1, JBool True, JNull]), (''t'', JStr ''y'')]]\<close>
proof -
  let ?line = "[(''t'', JStr ''y''), (''a'', JList [JInt 1, JBool True, JNull])]"
  let ?r = "JObj [(''a'', JList [JInt 1, JBool True, JNull]), (''t'', JStr ''y'')]"
  have c: "complete_lines registered_fs ''/var/dabble/tests.dabble''"
    by (simp add: complete_lines_def registered_fs_def)
  have d: \<open>dumps python_json (JObj ?line) = ''{"t":"y","a":[1,true,null]}''\<close>
    by code_simp
  have nl: "CHR 0x0A \<notin> set (dumps python_json (JObj ?line))"
    by (simp add: d)
  have l: \<open>loads python_json (''{"t":"y","a":[1,true,null]}'' @ [CHR 0x0A]) = Some ?r\<close>
    by code_simp
  then have l': "loads python_json (dumps python_json (JObj ?line) @ [CHR 0x0A]) = Some ?r"
    by (simp add: d)
  have asc: "json_ascii (JObj ?line)" by simp
  have rr: "reread (JObj ?line) = ?r" by simp
  have recs: "log_records python_json registered_fs ''/var/dabble/tests.dabble'' =
     [JObj [(''a'', JList [JStr ''a'', JStr ''b'']), (''t'', JStr ''x'')]]"
    by code_simp
  note t = append_line_scan[OF c, of python_json ?line ?r]
  from t nl l'
  have a: "log_records python_json (append_line python_json ''/var/dabble/tests.dabble'' ?line registered_fs)
     ''/var/dabble/tests.dabble'' =
     [JObj [(''a'', JList [JStr ''a'', JStr ''b'']), (''t'', JStr ''x'')], ?r]"
    by (simp add: recs)
  from t asc have e: "py_eq ?r (JObj ?line)"
    unfolding rr by blast
  from c d nl l asc rr e recs a show ?thesis by blast
qed

text \<open>The claim as stated fails at a file whose last line lacks its newline: the new text
  continues that line, the joined line does not parse, and the scan, which yielded one
  record before the append, yields none after it.\<close>

theorem append_line_unterminated_counterexample:
  \<open>unterminated_fs ''/var/dabble/tests.dabble'' = Some ''{"t":"x"}'' \<and>
   log_records python_json unterminated_fs ''/var/dabble/tests.dabble'' = [JObj [(''t'', JStr ''x'')]] \<and>
   loads python_json (dumps python_json (JObj [(''t'', JStr ''y'')]) @ [CHR 0x0A]) =
     Some (JObj [(''t'', JStr ''y'')]) \<and>
   append_line python_json ''/var/dabble/tests.dabble'' [(''t'', JStr ''y'')] unterminated_fs
     ''/var/dabble/tests.dabble'' = Some ''{"t":"x"}{"t":"y"}\<newline>'' \<and>
   log_records python_json
     (append_line python_json ''/var/dabble/tests.dabble'' [(''t'', JStr ''y'')] unterminated_fs)
     ''/var/dabble/tests.dabble'' = [] \<and>
   find_lines python_json
     (append_line python_json ''/var/dabble/tests.dabble'' [(''t'', JStr ''y'')] unterminated_fs)
     ''/var/dabble/tests.dabble'' [] = Stop\<close>
proof -
  have d: \<open>dumps python_json (JObj [(''t'', JStr ''y'')]) = ''{"t":"y"}''\<close>
    by code_simp
  have a: \<open>append_line python_json ''/var/dabble/tests.dabble'' [(''t'', JStr ''y'')] unterminated_fs =
     unterminated_fs(''/var/dabble/tests.dabble'' \<mapsto> ''{"t":"x"}{"t":"y"}\<newline>'')\<close>
    by (simp add: append_line_eq d) (simp add: unterminated_fs_def)
  have \<open>unterminated_fs ''/var/dabble/tests.dabble'' = Some ''{"t":"x"}''\<close>
    by (simp add: unterminated_fs_def)
  moreover have "log_records python_json unterminated_fs ''/var/dabble/tests.dabble'' = [JObj [(''t'', JStr ''x'')]]"
    by code_simp
  moreover have "loads python_json (dumps python_json (JObj [(''t'', JStr ''y'')]) @ [CHR 0x0A]) =
     Some (JObj [(''t'', JStr ''y'')])"
    by code_simp
  moreover have \<open>json_loads ''{"t":"x"}{"t":"y"}\<newline>'' = None\<close>
    by code_simp
  then have "log_records python_json
     (append_line python_json ''/var/dabble/tests.dabble'' [(''t'', JStr ''y'')] unterminated_fs)
     ''/var/dabble/tests.dabble'' = []"
    and "find_lines python_json
     (append_line python_json ''/var/dabble/tests.dabble'' [(''t'', JStr ''y'')] unterminated_fs)
     ''/var/dabble/tests.dabble'' [] = Stop"
    by (simp_all add: a log_records_def find_lines_def) (simp_all add: python_json_def)
  ultimately show ?thesis by (simp add: a)
qed

subsection \<open>C8: the index of an event\<close>

text \<open>
  Claim C8, amended.  \<^verbatim>\<open>ab_report\<close> reads \<^verbatim>\<open>out['results'][data['n']]\<close> without a check of
  its own, so Python's list indexing decides: in every report that is returned, every event
  of the test has a field \<^verbatim>\<open>n\<close> that selects a position of the list, and an integer \<open>i\<close>
  does so exactly when \<open>- len \<le> i < len\<close>, where \<open>len\<close> is the number of alternatives.  An
  event whose integer index is \<open>len\<close> or more, or less than \<open>- len\<close>, makes \<^verbatim>\<open>ab_report\<close>
  fail: it is neither skipped nor counted.  An event with a negative index \<open>i \<ge> - len\<close>
  belongs to alternative \<open>len + i\<close>, one with \<open>0 \<le> i < len\<close> to alternative \<open>i\<close>.
\<close>

theorem ab_report_index_range:
  "(\<forall>out fs'. ab_report J self name a b fs = (Inr out, fs') \<longrightarrow>
      (\<forall>e \<in> set (events_of J fs self name).
         \<exists>v k. field e ''n'' = Some v \<and> py_index (length (results out)) v = Inr k \<and>
               k < length (results out) \<and>
               (\<forall>i. v = JInt i \<longrightarrow> - int (length (results out)) \<le> i \<and> i < int (length (results out))))) \<and>
   (e \<in> set (events_of J fs self name) \<and> field e ''n'' = Some (JInt i) \<and>
    find_line J fs (tests_path self) [(''t'', name)] = Inr (Some test) \<and>
    field test ''a'' = Some alts \<and> py_iter_count alts = Inr n \<and>
    (i < - int n \<or> int n \<le> i) \<longrightarrow>
      (\<exists>err. ab_report J self name a b fs = (Inl err, fs))) \<and>
   (field e ''n'' = Some (JInt i) \<and> - int n \<le> i \<and> i < 0 \<longrightarrow> event_alt n e = Some (nat (int n + i))) \<and>
   (field e ''n'' = Some (JInt i) \<and> 0 \<le> i \<and> i < int n \<longrightarrow> event_alt n e = Some (nat i))"
proof -
  have range: "\<exists>v k. field e ''n'' = Some v \<and> py_index (length (results out)) v = Inr k \<and>
               k < length (results out) \<and>
               (\<forall>i. v = JInt i \<longrightarrow> - int (length (results out)) \<le> i \<and> i < int (length (results out)))"
    if run: "ab_report J self name a b fs = (Inr out, fs')" and e: "e \<in> set (events_of J fs self name)"
    for out fs' e
  proof -
    from run have "event_alt (length (results out)) e \<noteq> None"
      by (rule ab_report_success) (use e in blast)
    then obtain v k where v: "field e ''n'' = Some v" and k: "py_index (length (results out)) v = Inr k"
      by (auto simp: event_alt_def split: option.splits sum.splits)
    from k have "k < length (results out)" by (rule py_index_less)
    moreover from k have "- int (length (results out)) \<le> i \<and> i < int (length (results out))"
      if "v = JInt i" for i
      using that py_index_int_range by blast
    ultimately show ?thesis using v k by blast
  qed
  have fails: "\<exists>err. ab_report J self name a b fs = (Inl err, fs)"
    if e: "e \<in> set (events_of J fs self name)" and i: "field e ''n'' = Some (JInt i)"
      and test: "find_line J fs (tests_path self) [(''t'', name)] = Inr (Some test)"
      and alts: "field test ''a'' = Some alts" and n: "py_iter_count alts = Inr n"
      and out_of_range: "i < - int n \<or> int n \<le> i"
  proof (cases "fst (ab_report J self name a b fs)")
    case (Inl err)
    then have "ab_report J self name a b fs = (Inl err, fs)"
      using ab_report_frame[of J self name a b fs] by (metis prod.collapse)
    then show ?thesis by blast
  next
    case (Inr out)
    then have run: "ab_report J self name a b fs = (Inr out, fs)"
      using ab_report_frame[of J self name a b fs] by (metis prod.collapse)
    from run obtain test' where "find_line J fs (tests_path self) [(''t'', name)] = Inr (Some test')"
      "field test' ''a'' = Some (alternatives out)"
      "py_iter_count (alternatives out) = Inr (length (results out))"
      by (rule ab_report_success)
    with test alts n have len: "length (results out) = n" by simp
    from range[OF run e] i len have "- int n \<le> i \<and> i < int n" by auto
    with out_of_range show ?thesis by simp
  qed
  show ?thesis
    using range fails by (auto simp: event_alt_int)
qed

text \<open>The theorem at the funnel log, whose events have the indices 0 and 1, and at a log
  whose only event has the index 2 for a test with two alternatives: the report fails with
  \<^verbatim>\<open>IndexError\<close>.\<close>

theorem ab_report_index_range_witness:
  "JObj [(''c'', JBool False), (''a'', JStr ''shown''), (''n'', JInt 2), (''t'', JStr ''x''), (''i'', JStr ''u1'')]
     \<in> set (events_of python_json beyond_fs example_storage (JStr ''x'')) \<and>
   field (JObj [(''c'', JBool False), (''a'', JStr ''shown''), (''n'', JInt 2), (''t'', JStr ''x''), (''i'', JStr ''u1'')])
     ''n'' = Some (JInt 2) \<and>
   find_line python_json beyond_fs (tests_path example_storage) [(''t'', JStr ''x'')] =
     Inr (Some (JObj [(''a'', JList [JStr ''A'', JStr ''B'']), (''t'', JStr ''x'')])) \<and>
   field (JObj [(''a'', JList [JStr ''A'', JStr ''B'']), (''t'', JStr ''x'')]) ''a'' =
     Some (JList [JStr ''A'', JStr ''B'']) \<and>
   py_iter_count (JList [JStr ''A'', JStr ''B'']) = Inr 2 \<and>
   int 2 \<le> 2 \<and>
   ab_report python_json example_storage (JStr ''x'') (JStr ''shown'') (JStr ''converted'') beyond_fs =
     (Inl IndexError, beyond_fs) \<and>
   ab_report python_json example_storage (JStr ''x'') (JStr ''shown'') (JStr ''converted'') funnel_fs =
     (Inr \<lparr> test_name = JStr ''x'', alternatives = JList [JStr ''A'', JStr ''B''],
            results = [\<lparr> attempted = 1, completed = 1 \<rparr>, \<lparr> attempted = 1, completed = 0 \<rparr>] \<rparr>,
      funnel_fs) \<and>
   JObj [(''c'', JBool False), (''a'', JStr ''shown''), (''n'', JInt 1), (''t'', JStr ''x''), (''i'', JStr ''u3'')]
     \<in> set (events_of python_json funnel_fs example_storage (JStr ''x'')) \<and>
   py_index 2 (JInt 1) = Inr 1 \<and>
   event_alt 2 (JObj [(''n'', JInt (- 1))]) = Some 1"
proof -
  let ?e = "JObj [(''c'', JBool False), (''a'', JStr ''shown''), (''n'', JInt 2), (''t'', JStr ''x''), (''i'', JStr ''u1'')]"
  let ?test = "JObj [(''a'', JList [JStr ''A'', JStr ''B'']), (''t'', JStr ''x'')]"
  let ?f = "JObj [(''c'', JBool False), (''a'', JStr ''shown''), (''n'', JInt 1), (''t'', JStr ''x''), (''i'', JStr ''u3'')]"
  let ?out = "\<lparr> test_name = JStr ''x'', alternatives = JList [JStr ''A'', JStr ''B''],
            results = [\<lparr> attempted = 1, completed = 1 \<rparr>, \<lparr> attempted = 1, completed = 0 \<rparr>] \<rparr>"
  have evs: "events_of python_json beyond_fs example_storage (JStr ''x'') = [?e]"
    by code_simp
  then have e: "?e \<in> set (events_of python_json beyond_fs example_storage (JStr ''x''))" by simp
  have i: "field ?e ''n'' = Some (JInt 2)" by (simp add: field_def)
  have test: "find_line python_json beyond_fs (tests_path example_storage) [(''t'', JStr ''x'')] = Inr (Some ?test)"
    by code_simp
  have alts: "field ?test ''a'' = Some (JList [JStr ''A'', JStr ''B''])" by (simp add: field_def)
  have n: "py_iter_count (JList [JStr ''A'', JStr ''B'']) = Inr 2" by simp
  have r: "int 2 \<le> 2" by simp
  note t = ab_report_index_range[of python_json example_storage "JStr ''x''" "JStr ''shown''"
      "JStr ''converted''" beyond_fs ?e 2 ?test "JList [JStr ''A'', JStr ''B'']" 2]
  from t e i test alts n r
  have "\<exists>err. ab_report python_json example_storage (JStr ''x'') (JStr ''shown'') (JStr ''converted'') beyond_fs =
      (Inl err, beyond_fs)"
    by blast
  moreover have "fst (ab_report python_json example_storage (JStr ''x'') (JStr ''shown'') (JStr ''converted'') beyond_fs) =
      Inl IndexError"
    by code_simp
  ultimately have fail: "ab_report python_json example_storage (JStr ''x'') (JStr ''shown'') (JStr ''converted'') beyond_fs =
      (Inl IndexError, beyond_fs)"
    by auto
  have run: "ab_report python_json example_storage (JStr ''x'') (JStr ''shown'') (JStr ''converted'') funnel_fs =
     (Inr ?out, funnel_fs)"
    using funnel_report ab_report_frame[of python_json example_storage "JStr ''x''" "JStr ''shown''"
        "JStr ''converted''" funnel_fs]
    by (metis prod.collapse)
  have "events_of python_json funnel_fs example_storage (JStr ''x'') =
     [JObj [(''c'', JBool False), (''a'', JStr ''shown''), (''n'', JInt 0), (''t'', JStr ''x''), (''i'', JStr ''u1'')],
      JObj [(''c'', JBool False), (''a'', JStr ''converted''), (''n'', JInt 0), (''t'', JStr ''x''), (''i'', JStr ''u1'')],
      JObj [(''c'', JBool False), (''a'', JStr ''converted''), (''n'', JInt 0), (''t'', JStr ''x''), (''i'', JStr ''u2'')],
      ?f]"
    by code_simp
  then have f: "?f \<in> set (events_of python_json funnel_fs example_storage (JStr ''x''))" by simp
  have p: "py_index 2 (JInt 1) = Inr 1" by simp
  have ea: "event_alt 2 (JObj [(''n'', JInt (- 1))]) = Some 1"
    by (simp add: event_alt_def field_def)
  from e i test alts n r fail run f p ea show ?thesis by blast
qed

text \<open>The claim as stated fails at a log whose only event has the index \<open>-1\<close>, outside the
  range \<open>0 \<le> n < 2\<close>: \<^verbatim>\<open>ab_report\<close> does not fail, and the event is counted for the last
  alternative.\<close>

theorem ab_report_negative_index_counterexample:
  "events_of python_json negative_fs example_storage (JStr ''x'') =
     [JObj [(''c'', JBool False), (''a'', JStr ''shown''), (''n'', JInt (- 1)), (''t'', JStr ''x''), (''i'', JStr ''u1'')]] \<and>
   ab_report python_json example_storage (JStr ''x'') (JStr ''shown'') (JStr ''converted'') negative_fs =
     (Inr \<lparr> test_name = JStr ''x'', alternatives = JList [JStr ''A'', JStr ''B''],
            results = [\<lparr> attempted = 0, completed = 0 \<rparr>, \<lparr> attempted = 1, completed = 0 \<rparr>] \<rparr>,
      negative_fs)"
proof -
  have "events_of python_json negative_fs example_storage (JStr ''x'') =
     [JObj [(''c'', JBool False), (''a'', JStr ''shown''), (''n'', JInt (- 1)), (''t'', JStr ''x''), (''i'', JStr ''u1'')]]"
    by code_simp
  moreover have "fst (ab_report python_json example_storage (JStr ''x'') (JStr ''shown'') (JStr ''converted'') negative_fs) =
     Inr \<lparr> test_name = JStr ''x'', alternatives = JList [JStr ''A'', JStr ''B''],
            results = [\<lparr> attempted = 0, completed = 0 \<rparr>, \<lparr> attempted = 1, completed = 0 \<rparr>] \<rparr>"
    by code_simp
  then have "ab_report python_json example_storage (JStr ''x'') (JStr ''shown'') (JStr ''converted'') negative_fs =
     (Inr \<lparr> test_name = JStr ''x'', alternatives = JList [JStr ''A'', JStr ''B''],
            results = [\<lparr> attempted = 0, completed = 0 \<rparr>, \<lparr> attempted = 1, completed = 0 \<rparr>] \<rparr>,
      negative_fs)"
    using ab_report_frame[of python_json example_storage "JStr ''x''" "JStr ''shown''"
        "JStr ''converted''" negative_fs]
    by (metis prod.collapse)
  ultimately show ?thesis by blast
qed

subsection \<open>C9: equal actions\<close>

text \<open>
  Claim C9.  When the two actions are equal, every report that \<^verbatim>\<open>ab_report\<close> returns has
  0 completed for every alternative, whatever the log holds: an event whose action equals
  \<open>a\<close> is taken by the first branch, and the second branch needs an action that equals \<open>b\<close>
  and not \<open>a\<close>.
\<close>

theorem ab_report_same_action:
  assumes "py_eq a b"
    and "ab_report J self name a b fs = (Inr out, fs')"
  shows "\<forall>r \<in> set (results out). completed r = 0"
proof
  fix r
  assume "r \<in> set (results out)"
  then obtain k where k: "k < length (results out)" and r: "r = results out ! k"
    by (auto simp: in_set_conv_nth)
  from assms(2) have "results out ! k =
         \<lparr> attempted = card (attempted_ids a (length (results out)) k (events_of J fs self name)),
           completed = card (completed_ids a b (length (results out)) k (events_of J fs self name)) \<rparr>"
    by (rule ab_report_success) (use k in blast)
  with r show "completed r = 0"
    by (simp add: completed_ids_same_action[OF assms(1)])
qed

text \<open>The theorem at the funnel log with \<^verbatim>\<open>shown\<close> as both actions.\<close>

theorem ab_report_same_action_witness:
  "py_eq (JStr ''shown'') (JStr ''shown'') \<and>
   ab_report python_json example_storage (JStr ''x'') (JStr ''shown'') (JStr ''shown'') funnel_fs =
     (Inr \<lparr> test_name = JStr ''x'', alternatives = JList [JStr ''A'', JStr ''B''],
            results = [\<lparr> attempted = 1, completed = 0 \<rparr>, \<lparr> attempted = 1, completed = 0 \<rparr>] \<rparr>,
      funnel_fs) \<and>
   completed \<lparr> attempted = 1, completed = 0 \<rparr> = 0"
proof -
  have e: "py_eq (JStr ''shown'') (JStr ''shown'')" by simp
  have "fst (ab_report python_json example_storage (JStr ''x'') (JStr ''shown'') (JStr ''shown'') funnel_fs) =
     Inr \<lparr> test_name = JStr ''x'', alternatives = JList [JStr ''A'', JStr ''B''],
            results = [\<lparr> attempted = 1, completed = 0 \<rparr>, \<lparr> attempted = 1, completed = 0 \<rparr>] \<rparr>"
    by code_simp
  then have run: "ab_report python_json example_storage (JStr ''x'') (JStr ''shown'') (JStr ''shown'') funnel_fs =
     (Inr \<lparr> test_name = JStr ''x'', alternatives = JList [JStr ''A'', JStr ''B''],
            results = [\<lparr> attempted = 1, completed = 0 \<rparr>, \<lparr> attempted = 1, completed = 0 \<rparr>] \<rparr>,
      funnel_fs)"
    using ab_report_frame[of python_json example_storage "JStr ''x''" "JStr ''shown''" "JStr ''shown''" funnel_fs]
    by (metis prod.collapse)
  from ab_report_same_action[OF e run] e run show ?thesis by simp
qed

subsection \<open>C10: what the methods change\<close>

text \<open>
  Claim C10.  The three reading methods return the file system they were given, also when
  they fail.  \<^verbatim>\<open>save_test\<close> and \<^verbatim>\<open>set_alternative\<close> leave the file system as it was when
  they fail; when they succeed, and whenever \<^verbatim>\<open>record\<close> is called, exactly one file gets
  one more line at its end, the serialised record and a newline (a single line when the
  serialisation holds no newline), and every other file is as it was.  The three logs of a
  storage directory are three different files, so a call that writes to one of them leaves
  the other two unchanged.
\<close>

theorem storage_frame:
  "snd (get_alternative J self ident name fs) = fs \<and>
   snd (is_completed J self ident name alt fs) = fs \<and>
   snd (ab_report J self name a b fs) = fs \<and>
   (case save_test J self name alts fs of
      (Inl e, fs') \<Rightarrow> fs' = fs
    | (Inr u, fs') \<Rightarrow> appended_one J (tests_path self) [(''t'', name), (''a'', alts)] fs fs') \<and>
   (case set_alternative J self ident name alt fs of
      (Inl e, fs') \<Rightarrow> fs' = fs
    | (Inr u, fs') \<Rightarrow>
        appended_one J (alts_path self) [(''i'', ident), (''t'', name), (''n'', alt)] fs fs') \<and>
   fst (record_result J self ident name alt act flag fs) = Inr () \<and>
   appended_one J (results_path self)
     [(''i'', ident), (''t'', name), (''n'', alt), (''a'', act), (''c'', flag)] fs
     (snd (record_result J self ident name alt act flag fs)) \<and>
   tests_path (FSResultStorage dir) \<noteq> results_path (FSResultStorage dir) \<and>
   tests_path (FSResultStorage dir) \<noteq> alts_path (FSResultStorage dir) \<and>
   results_path (FSResultStorage dir) \<noteq> alts_path (FSResultStorage dir) \<and>
   snd (save_test J (FSResultStorage dir) name alts fs) (results_path (FSResultStorage dir)) =
     fs (results_path (FSResultStorage dir)) \<and>
   snd (save_test J (FSResultStorage dir) name alts fs) (alts_path (FSResultStorage dir)) =
     fs (alts_path (FSResultStorage dir)) \<and>
   snd (set_alternative J (FSResultStorage dir) ident name alt fs) (tests_path (FSResultStorage dir)) =
     fs (tests_path (FSResultStorage dir)) \<and>
   snd (set_alternative J (FSResultStorage dir) ident name alt fs) (results_path (FSResultStorage dir)) =
     fs (results_path (FSResultStorage dir)) \<and>
   snd (record_result J (FSResultStorage dir) ident name alt act flag fs) (tests_path (FSResultStorage dir)) =
     fs (tests_path (FSResultStorage dir)) \<and>
   snd (record_result J (FSResultStorage dir) ident name alt act flag fs) (alts_path (FSResultStorage dir)) =
     fs (alts_path (FSResultStorage dir)) \<and>
   (CHR 0x0A \<notin> set (dumps J (JObj line)) \<longrightarrow>
      file_lines (dumps J (JObj line) @ [CHR 0x0A]) = [dumps J (JObj line) @ [CHR 0x0A]])"
proof -
  have reads: "snd (get_alternative J self ident name fs) = fs"
    "snd (is_completed J self ident name alt fs) = fs"
    by (simp_all add: get_alternative_cases is_completed_def split: sum.splits option.splits)
  have rec: "fst (record_result J self ident name alt act flag fs) = Inr ()"
    "appended_one J (results_path self)
       [(''i'', ident), (''t'', name), (''n'', alt), (''a'', act), (''c'', flag)] fs
       (snd (record_result J self ident name alt act flag fs))"
    by (simp_all add: record_result_def appended_one_append_line)
  note d = paths_distinct[of dir]
  show ?thesis
    using reads ab_report_frame[of J self name a b fs] save_test_frame[where J=J and self=self and name=name and alts=alts and fs=fs]
      set_alternative_frame[where J=J and self=self and ident=ident and name=name and alt=alt and fs=fs] rec d
      save_test_other[OF d(1)[symmetric]] save_test_other[OF d(2)[symmetric]]
      set_alternative_other[OF d(2)] set_alternative_other[OF d(3)]
      record_result_other[OF d(1)] record_result_other[OF d(3)[symmetric]]
      file_lines_single[of "dumps J (JObj line)"]
    by simp
qed

text \<open>The theorem at the log that holds the definition of test \<^verbatim>\<open>x\<close>: a conflicting
  registration changes nothing, an equal one appends one line to the tests log alone, the
  readers change nothing.\<close>

theorem storage_frame_witness:
  \<open>snd (get_alternative python_json example_storage (JStr ''u1'') (JStr ''x'') registered_fs) = registered_fs \<and>
   snd (is_completed python_json example_storage (JStr ''u1'') (JStr ''x'') (JInt 0) registered_fs) = registered_fs \<and>
   snd (ab_report python_json example_storage (JStr ''nosuch'') (JStr ''a'') (JStr ''b'') registered_fs) = registered_fs \<and>
   save_test python_json example_storage (JStr ''x'') (JList [JStr ''a'', JStr ''c'']) registered_fs =
     (Inl (Exception ''test "%s" already exists with different alternatives'' (JStr ''x'')), registered_fs) \<and>
   fst (save_test python_json example_storage (JStr ''x'') (JList [JStr ''a'', JStr ''b'']) registered_fs) = Inr () \<and>
   appended_one python_json (tests_path example_storage)
     [(''t'', JStr ''x''), (''a'', JList [JStr ''a'', JStr ''b''])] registered_fs
     (snd (save_test python_json example_storage (JStr ''x'') (JList [JStr ''a'', JStr ''b'']) registered_fs)) \<and>
   snd (save_test python_json example_storage (JStr ''x'') (JList [JStr ''a'', JStr ''b'']) registered_fs)
     ''/var/dabble/tests.dabble'' = Some ''{"t":"x","a":["a","b"]}\<newline>{"t":"x","a":["a","b"]}\<newline>'' \<and>
   snd (save_test python_json example_storage (JStr ''x'') (JList [JStr ''a'', JStr ''b'']) registered_fs)
     ''/var/dabble/results.dabble'' = None \<and>
   snd (save_test python_json example_storage (JStr ''x'') (JList [JStr ''a'', JStr ''b'']) registered_fs)
     ''/var/dabble/alts.dabble'' = None \<and>
   CHR 0x0A \<notin> set (dumps python_json (JObj [(''t'', JStr ''x''), (''a'', JList [JStr ''a'', JStr ''b''])])) \<and>
   file_lines (dumps python_json (JObj [(''t'', JStr ''x''), (''a'', JList [JStr ''a'', JStr ''b''])]) @ [CHR 0x0A]) =
     [''{"t":"x","a":["a","b"]}\<newline>'']\<close>
proof -
  let ?S = "FSResultStorage ''/var/dabble''"
  have S: "example_storage = ?S" by (simp add: example_storage_def)
  note t1 = storage_frame[where J=python_json and self=example_storage and ident="JStr ''u1''"
      and name="JStr ''x''" and fs=registered_fs and alt="JInt 0" and a="JStr ''a''" and b="JStr ''b''"
      and alts="JList [JStr ''a'', JStr ''c'']" and act="JStr ''shown''" and flag="JBool False"
      and dir="''/var/dabble''" and line="[(''t'', JStr ''x''), (''a'', JList [JStr ''a'', JStr ''b''])]"]
  note t2 = storage_frame[where J=python_json and self=example_storage and ident="JStr ''u1''"
      and name="JStr ''nosuch''" and fs=registered_fs and alt="JInt 0" and a="JStr ''a''" and b="JStr ''b''"
      and alts="JList [JStr ''a'', JStr ''b'']" and act="JStr ''shown''" and flag="JBool False"
      and dir="''/var/dabble''" and line="[(''t'', JStr ''x''), (''a'', JList [JStr ''a'', JStr ''b''])]"]
  note t3 = storage_frame[where J=python_json and self=example_storage and ident="JStr ''u1''"
      and name="JStr ''x''" and fs=registered_fs and alt="JInt 0" and a="JStr ''a''" and b="JStr ''b''"
      and alts="JList [JStr ''a'', JStr ''b'']" and act="JStr ''shown''" and flag="JBool False"
      and dir="''/var/dabble''" and line="[(''t'', JStr ''x''), (''a'', JList [JStr ''a'', JStr ''b''])]"]
  have conflict: \<open>fst (save_test python_json example_storage (JStr ''x'') (JList [JStr ''a'', JStr ''c'']) registered_fs) =
     Inl (Exception ''test "%s" already exists with different alternatives'' (JStr ''x''))\<close>
    by (simp add: save_test_cases registered_lookup field_def)
  have ok: "fst (save_test python_json example_storage (JStr ''x'') (JList [JStr ''a'', JStr ''b'']) registered_fs) = Inr ()"
    by (simp add: save_test_cases registered_lookup field_def)
  have r1: "snd (get_alternative python_json example_storage (JStr ''u1'') (JStr ''x'') registered_fs) = registered_fs"
    and r2: "snd (is_completed python_json example_storage (JStr ''u1'') (JStr ''x'') (JInt 0) registered_fs) = registered_fs"
    using t1 by blast+
  have r3: "snd (ab_report python_json example_storage (JStr ''nosuch'') (JStr ''a'') (JStr ''b'') registered_fs) = registered_fs"
    using t2 by blast
  from t1 conflict
  have c: \<open>save_test python_json example_storage (JStr ''x'') (JList [JStr ''a'', JStr ''c'']) registered_fs =
     (Inl (Exception ''test "%s" already exists with different alternatives'' (JStr ''x'')), registered_fs)\<close>
    by (cases "save_test python_json example_storage (JStr ''x'') (JList [JStr ''a'', JStr ''c'']) registered_fs")
       (auto split: sum.splits)
  from t3 ok
  have a: "appended_one python_json (tests_path example_storage)
     [(''t'', JStr ''x''), (''a'', JList [JStr ''a'', JStr ''b''])] registered_fs
     (snd (save_test python_json example_storage (JStr ''x'') (JList [JStr ''a'', JStr ''b'']) registered_fs))"
    by (cases "save_test python_json example_storage (JStr ''x'') (JList [JStr ''a'', JStr ''b'']) registered_fs")
       (auto split: sum.splits)
  then have f1: \<open>snd (save_test python_json example_storage (JStr ''x'') (JList [JStr ''a'', JStr ''b'']) registered_fs)
     ''/var/dabble/tests.dabble'' = Some ''{"t":"x","a":["a","b"]}\<newline>{"t":"x","a":["a","b"]}\<newline>''\<close>
    by (simp add: appended_one_def example_paths dumps_registered) (simp add: registered_fs_def)
  from t3 have "snd (save_test python_json ?S (JStr ''x'') (JList [JStr ''a'', JStr ''b'']) registered_fs)
      (results_path ?S) = registered_fs (results_path ?S)"
    and "snd (save_test python_json ?S (JStr ''x'') (JList [JStr ''a'', JStr ''b'']) registered_fs)
      (alts_path ?S) = registered_fs (alts_path ?S)"
    by blast+
  then have f2: "snd (save_test python_json example_storage (JStr ''x'') (JList [JStr ''a'', JStr ''b'']) registered_fs)
     ''/var/dabble/results.dabble'' = None"
    and f3: "snd (save_test python_json example_storage (JStr ''x'') (JList [JStr ''a'', JStr ''b'']) registered_fs)
     ''/var/dabble/alts.dabble'' = None"
    using example_paths by (simp_all add: S[symmetric] registered_fs_def)
  have nl: "CHR 0x0A \<notin> set (dumps python_json (JObj [(''t'', JStr ''x''), (''a'', JList [JStr ''a'', JStr ''b''])]))"
    by (simp add: dumps_registered)
  with t3 have fl: \<open>file_lines (dumps python_json (JObj [(''t'', JStr ''x''), (''a'', JList [JStr ''a'', JStr ''b''])]) @ [CHR 0x0A]) =
     [''{"t":"x","a":["a","b"]}\<newline>'']\<close>
    by (simp add: dumps_registered)
  from r1 r2 r3 c ok a f1 f2 f3 nl fl show ?thesis by blast
qed

end
